theory Spec2Isabelle
  imports Complex_Main "HOL-Library.AList" "HOL-Library.Multiset"
begin

section \<open>Strings and numbers of the portal\<close>

text \<open>
  A JavaScript string is modelled as a \<^typ>\<open>string\<close>, one \<^typ>\<open>char\<close> per code unit
  below 256. The regular-expression classes \<open>\d\<close> and \<open>\s\<close> are the two predicates
  below; \<open>\s\<close> holds of the code units 9 to 13, 32 and 160, which are all the white
  space there is below 256. Case conversion is the one of the ASCII letters.
  JavaScript numbers are modelled as exact reals.
\<close>

definition isDigit :: "char \<Rightarrow> bool" where
  "isDigit c \<longleftrightarrow> c \<in> set ''0123456789''"

definition isSpace :: "char \<Rightarrow> bool" where
  "isSpace c \<longleftrightarrow> (of_char c :: nat) \<in> set [9, 10, 11, 12, 13, 32, 160]"

definition upperChar :: "char \<Rightarrow> char" where
  "upperChar c =
     (case map_of (zip ''abcdefghijklmnopqrstuvwxyz'' ''ABCDEFGHIJKLMNOPQRSTUVWXYZ'') c of
        Some u \<Rightarrow> u
      | None \<Rightarrow> c)"

definition lowerChar :: "char \<Rightarrow> char" where
  "lowerChar c =
     (case map_of (zip ''ABCDEFGHIJKLMNOPQRSTUVWXYZ'' ''abcdefghijklmnopqrstuvwxyz'') c of
        Some l \<Rightarrow> l
      | None \<Rightarrow> c)"

definition toUpperCase :: "string \<Rightarrow> string" where
  "toUpperCase s = map upperChar s"

definition toLowerCase :: "string \<Rightarrow> string" where
  "toLowerCase s = map lowerChar s"

definition digitVal :: "char \<Rightarrow> nat" where
  "digitVal c = of_char c - 48"

definition digitsVal :: "string \<Rightarrow> nat" where
  "digitsVal s = foldl (\<lambda>n c. 10 * n + digitVal c) 0 s"

definition digitChar :: "nat \<Rightarrow> char" where
  "digitChar d = ''0123456789'' ! d"

text \<open>The decimal numeral of a natural number, as \<open>String(n)\<close> prints it.\<close>

fun natToString :: "nat \<Rightarrow> string" where
  "natToString n =
     (if n < 10 then [digitChar n] else natToString (n div 10) @ [digitChar (n mod 10)])"

declare natToString.simps [simp del]

section \<open>Filter Engine: parsing a file-size label\<close>

text \<open>
  \<open>parseFloat\<close> is only ever applied to the first capture group of the size pattern,
  a text of the shape \<open>\d+(\.\d+)?\<close>; the model reads exactly that shape.
\<close>

definition parseFloat :: "string \<Rightarrow> real" where
  "parseFloat s =
     (let ip = takeWhile isDigit s; r = dropWhile isDigit s
      in case r of
           [] \<Rightarrow> real (digitsVal ip)
         | _ # fd \<Rightarrow> real (digitsVal ip) + real (digitsVal fd) / 10 ^ length fd)"

text \<open>
  \<open>sizeString.match(/^(\d+(?:\.\d+)?)\s*(B|KB|MB|GB)$/i)\<close>: the result is the pair of
  the two capture groups, or \<open>None\<close> for \<open>null\<close>. The classes of the pattern (digits,
  the dot, white space, the letters of the units) are pairwise disjoint, so the
  backtracking matcher has one way through a text at most, the greedy one followed here.
\<close>

definition matchSize :: "string \<Rightarrow> (string \<times> string) option" where
  "matchSize s =
     (let ip = takeWhile isDigit s; r1 = dropWhile isDigit s
      in if ip = [] then None
         else
           let (number, r2) =
                 (case r1 of
                    [] \<Rightarrow> (ip, r1)
                  | c # r \<Rightarrow>
                      if c = CHR ''.'' \<and> takeWhile isDigit r \<noteq> []
                      then (ip @ [c] @ takeWhile isDigit r, dropWhile isDigit r)
                      else (ip, r1));
               unit = dropWhile isSpace r2
           in if toUpperCase unit \<in> set [''B'', ''KB'', ''MB'', ''GB'']
              then Some (number, unit)
              else None)"

text \<open>\<open>FilterManager.parseFileSize\<close>; \<open>None\<close> is a missing (undefined or null) label.\<close>

definition parseFileSize :: "string option \<Rightarrow> real" where
  "parseFileSize sizeString =
     (case sizeString of
        None \<Rightarrow> 0
      | Some s \<Rightarrow>
          if s = [] then 0
          else
            (case matchSize s of
               None \<Rightarrow> 0
             | Some (number, unit) \<Rightarrow>
                 let num = parseFloat number; u = toUpperCase unit
                 in if u = ''GB'' then num * 1024 * 1024 * 1024
                    else if u = ''MB'' then num * 1024 * 1024
                    else if u = ''KB'' then num * 1024
                    else num))"

text \<open>
  The size pattern as the specification words it,
  \<open>^\d+(\.\d+)?\s*(B|KB|MB|GB)$\<close> without regard to case: an integer part, an
  optional fraction, optional white space, a unit.
\<close>

definition size_pattern :: "string \<Rightarrow> bool" where
  "size_pattern s \<longleftrightarrow>
     (\<exists>ip fr ws u.
        s = ip @ fr @ ws @ u \<and> ip \<noteq> [] \<and> list_all isDigit ip \<and>
        (fr = [] \<or> (\<exists>fd. fr = CHR ''.'' # fd \<and> fd \<noteq> [] \<and> list_all isDigit fd)) \<and>
        list_all isSpace ws \<and>
        toUpperCase u \<in> set [''B'', ''KB'', ''MB'', ''GB''])"

section \<open>Download Manager: formatting a byte count\<close>

text \<open>
  \<open>Math.floor(Math.log(bytes) / Math.log(k))\<close> for a positive integer: the largest
  \<open>i\<close> with \<open>k ^ i \<le> bytes\<close>.
\<close>

fun floorLog :: "nat \<Rightarrow> nat \<Rightarrow> nat" where
  "floorLog k n = (if k \<le> 1 \<or> n < k then 0 else Suc (floorLog k (n div k)))"

declare floorLog.simps [simp del]

text \<open>
  \<open>parseFloat((bytes / Math.pow(k, i)).toFixed(2))\<close> printed by string concatenation.
  \<open>toFixed(2)\<close> takes the nearest multiple of a hundredth, the larger one at a tie:
  \<open>q\<close> hundredths. \<open>parseFloat\<close> and the conversion back to a string drop the
  trailing zeros of the fraction.
\<close>

definition fixed2ToString :: "nat \<Rightarrow> nat \<Rightarrow> string" where
  "fixed2ToString a b =
     (let q = (200 * a + b) div (2 * b); ip = q div 100; fp = q mod 100
      in if fp = 0 then natToString ip
         else if fp mod 10 = 0 then natToString ip @ ''.'' @ [digitChar (fp div 10)]
         else natToString ip @ ''.'' @ [digitChar (fp div 10), digitChar (fp mod 10)])"

text \<open>
  \<open>DownloadManager.formatFileSize\<close> on an integer byte count. \<open>sizes[i]\<close> is
  \<open>undefined\<close> from \<open>i = 4\<close> on, which concatenation prints as that word.
\<close>

definition formatFileSize :: "nat \<Rightarrow> string" where
  "formatFileSize bytes =
     (if bytes = 0 then ''0 Bytes''
      else
        let k = 1024;
            sizes = [''Bytes'', ''KB'', ''MB'', ''GB''];
            i = floorLog k bytes
        in fixed2ToString bytes (k ^ i) @ '' '' @
           (if i < length sizes then sizes ! i else ''undefined''))"

section \<open>Filter Engine: resources, selections, sorting\<close>

text \<open>
  A resource record with the fields the filter and search code read. \<open>ident\<close> is the
  field \<open>id\<close>. \<open>uploaded\<close> is the time value, in milliseconds, that \<open>new Date\<close>
  gives the upload date; a label, a counter, a date or the tag list may be missing.
  A date text that \<open>new Date\<close> cannot read has no time value and is not modelled.
\<close>

record resource =
  ident :: string
  title :: string
  description :: string
  category :: string
  subject :: string
  grade :: string
  year :: string
  fileSize :: "string option"
  downloads :: "nat option"
  uploaded :: "int option"
  tags :: "string list option"

text \<open>The filter selection \<open>activeFilters\<close>, its six properties in the order of the literal.\<close>

record filters =
  f_category :: string
  f_grade :: string
  f_year :: string
  f_subject :: string
  f_sortBy :: string
  f_tags :: "string list"

definition defaultFilters :: filters where
  "defaultFilters =
     \<lparr>f_category = ''all'', f_grade = ''all'', f_year = ''all'', f_subject = ''all'',
      f_sortBy = ''popular'', f_tags = []\<rparr>"

text \<open>
  \<open>Array.prototype.sort\<close> with a comparison function: an element goes before another
  when the function is negative on the pair, and the sort is stable. For a consistent
  comparison function that fixes the result, which insertion from the right computes.
\<close>

fun insertStable :: "('a \<Rightarrow> 'a \<Rightarrow> real) \<Rightarrow> 'a \<Rightarrow> 'a list \<Rightarrow> 'a list" where
  "insertStable cmp x [] = [x]"
| "insertStable cmp x (y # ys) =
     (if cmp x y \<le> 0 then x # y # ys else y # insertStable cmp x ys)"

definition sortJS :: "('a \<Rightarrow> 'a \<Rightarrow> real) \<Rightarrow> 'a list \<Rightarrow> 'a list" where
  "sortJS cmp xs = foldr (insertStable cmp) xs []"

text \<open>
  \<open>localeCompare\<close> orders strings by the collation of the locale, a total preorder;
  \<open>collate\<close> is the collation key of a string, a parameter of the model.
\<close>

definition localeCompare :: "(string \<Rightarrow> 'k::linorder) \<Rightarrow> string \<Rightarrow> string \<Rightarrow> real" where
  "localeCompare collate a b =
     (if collate a < collate b then - 1 else if collate a = collate b then 0 else 1)"

definition uploadedTime :: "resource \<Rightarrow> real" where
  "uploadedTime r = (case uploaded r of None \<Rightarrow> 0 | Some t \<Rightarrow> real_of_int t)"

definition downloadCount :: "resource \<Rightarrow> real" where
  "downloadCount r = (case downloads r of None \<Rightarrow> 0 | Some n \<Rightarrow> real n)"

text \<open>\<open>FilterManager.applySorting\<close>; a key that is none of the seven leaves the copy as it is.\<close>

definition applySorting ::
  "(string \<Rightarrow> 'k::linorder) \<Rightarrow> resource list \<Rightarrow> string \<Rightarrow> resource list" where
  "applySorting collate resources sortBy =
     (let sorted = resources
      in if sortBy = ''newest'' then sortJS (\<lambda>a b. uploadedTime b - uploadedTime a) sorted
         else if sortBy = ''oldest'' then sortJS (\<lambda>a b. uploadedTime a - uploadedTime b) sorted
         else if sortBy = ''popular'' then sortJS (\<lambda>a b. downloadCount b - downloadCount a) sorted
         else if sortBy = ''name-asc''
           then sortJS (\<lambda>a b. localeCompare collate (title a) (title b)) sorted
         else if sortBy = ''name-desc''
           then sortJS (\<lambda>a b. localeCompare collate (title b) (title a)) sorted
         else if sortBy = ''size-asc''
           then sortJS (\<lambda>a b. parseFileSize (fileSize a) - parseFileSize (fileSize b)) sorted
         else if sortBy = ''size-desc''
           then sortJS (\<lambda>a b. parseFileSize (fileSize b) - parseFileSize (fileSize a)) sorted
         else sorted)"

text \<open>\<open>item.tags && item.tags.includes(tag)\<close>\<close>

definition hasTag :: "resource \<Rightarrow> string \<Rightarrow> bool" where
  "hasTag item tag = (case tags item of None \<Rightarrow> False | Some ts \<Rightarrow> tag \<in> set ts)"

text \<open>\<open>FilterManager.applyFilters\<close> with the selection given.\<close>

definition applyFilters ::
  "(string \<Rightarrow> 'k::linorder) \<Rightarrow> resource list \<Rightarrow> filters \<Rightarrow> resource list" where
  "applyFilters collate resources activeFilters =
     (let filtered = resources;
          filtered =
            (if f_category activeFilters \<noteq> ''all''
             then filter (\<lambda>item. category item = f_category activeFilters) filtered
             else filtered);
          filtered =
            (if f_grade activeFilters \<noteq> ''all''
             then filter (\<lambda>item. grade item = f_grade activeFilters) filtered
             else filtered);
          filtered =
            (if f_year activeFilters \<noteq> ''all''
             then filter (\<lambda>item. year item = f_year activeFilters) filtered
             else filtered);
          filtered =
            (if f_subject activeFilters \<noteq> ''all''
             then filter (\<lambda>item. subject item = f_subject activeFilters) filtered
             else filtered);
          filtered =
            (if length (f_tags activeFilters) > 0
             then filter (\<lambda>item. list_all (hasTag item) (f_tags activeFilters)) filtered
             else filtered)
      in applySorting collate filtered (f_sortBy activeFilters))"

text \<open>
  What the specification asks of an item under a selection: equality on every axis
  that is not \<open>all\<close>, and every required tag among the tags of the item.
\<close>

definition matchesSelection :: "filters \<Rightarrow> resource \<Rightarrow> bool" where
  "matchesSelection S item \<longleftrightarrow>
     (f_category S = ''all'' \<or> category item = f_category S) \<and>
     (f_grade S = ''all'' \<or> grade item = f_grade S) \<and>
     (f_year S = ''all'' \<or> year item = f_year S) \<and>
     (f_subject S = ''all'' \<or> subject item = f_subject S) \<and>
     (\<forall>tag \<in> set (f_tags S). \<exists>ts. tags item = Some ts \<and> tag \<in> set ts)"

text \<open>A resource for the examples: an identifier, a grade and a download counter.\<close>

definition exampleResource :: "string \<Rightarrow> string \<Rightarrow> nat \<Rightarrow> resource" where
  "exampleResource i g n =
     \<lparr>ident = i, title = i, description = [], category = ''textbook'',
      subject = ''Physics'', grade = g, year = ''2023'', fileSize = Some ''15.2 MB'',
      downloads = Some n, uploaded = None, tags = Some [''EUEE'']\<rparr>"

section \<open>Filter Engine: the selection and the URL\<close>

text \<open>
  \<open>URLSearchParams\<close> is a list of name and value pairs. \<open>toString\<close> writes it in the
  form-urlencoded format of the URL standard: the bytes of the UTF-8 encoding, a space
  as \<open>+\<close>, letters, digits and \<open>* - . _\<close> as they are, any other byte as a percent
  escape. The constructor reads the format back from a query string.
\<close>

type_synonym urlSearchParams = "(string \<times> string) list"

fun paramsSet :: "string \<Rightarrow> string \<Rightarrow> urlSearchParams \<Rightarrow> urlSearchParams" where
  "paramsSet name v [] = [(name, v)]"
| "paramsSet name v ((k, w) # ps) =
     (if k = name then (name, v) # filter (\<lambda>p. fst p \<noteq> name) ps
      else (k, w) # paramsSet name v ps)"

definition paramsGet :: "string \<Rightarrow> urlSearchParams \<Rightarrow> string option" where
  "paramsGet name ps = map_of ps name"

definition hexDigit :: "nat \<Rightarrow> char" where
  "hexDigit d = ''0123456789ABCDEF'' ! d"

definition hexVal :: "char \<Rightarrow> nat option" where
  "hexVal c =
     map_of (zip ''0123456789ABCDEFabcdef''
       [0, 1, 2, 3, 4, 5, 6, 7, 8, 9, 10, 11, 12, 13, 14, 15, 10, 11, 12, 13, 14, 15]) c"

definition utf8Bytes :: "char \<Rightarrow> nat list" where
  "utf8Bytes c =
     (let n = (of_char c :: nat)
      in if n < 128 then [n] else [192 + n div 64, 128 + n mod 64])"

definition encodeByte :: "char \<Rightarrow> nat \<Rightarrow> string" where
  "encodeByte c b =
     (if b = 32 then ''+''
      else if b < 128 \<and>
              c \<in> set ''*-._0123456789ABCDEFGHIJKLMNOPQRSTUVWXYZabcdefghijklmnopqrstuvwxyz''
      then [c]
      else [CHR ''%'', hexDigit (b div 16), hexDigit (b mod 16)])"

definition formEncode :: "string \<Rightarrow> string" where
  "formEncode s = concat (map (\<lambda>c. concat (map (encodeByte c) (utf8Bytes c))) s)"

text \<open>\<open>Array.prototype.join\<close>\<close>

fun joinWith :: "string \<Rightarrow> string list \<Rightarrow> string" where
  "joinWith sep [] = []"
| "joinWith sep [x] = x"
| "joinWith sep (x # y # ys) = x @ sep @ joinWith sep (y # ys)"

definition paramsToString :: "urlSearchParams \<Rightarrow> string" where
  "paramsToString ps = joinWith ''&'' (map (\<lambda>(k, v). formEncode k @ ''='' @ formEncode v) ps)"

text \<open>\<open>String.prototype.split\<close> at a one-character separator.\<close>

fun splitOn :: "char \<Rightarrow> string \<Rightarrow> string list" where
  "splitOn d [] = [ [] ]"
| "splitOn d (c # cs) =
     (if c = d then [] # splitOn d cs
      else (case splitOn d cs of [] \<Rightarrow> [ [c] ] | w # ws \<Rightarrow> (c # w) # ws))"

fun percentDecode :: "string \<Rightarrow> string" where
  "percentDecode (c # h1 # h2 # r) =
     (case (if c = CHR ''%'' then hexVal h1 else None, hexVal h2) of
        (Some a, Some b) \<Rightarrow> char_of (16 * a + b) # percentDecode r
      | _ \<Rightarrow> c # percentDecode (h1 # h2 # r))"
| "percentDecode s = s"

text \<open>
  The UTF-8 decoding of the code points below 256, which are all a string of the model
  holds: a lead byte 194 or 195 and its continuation byte make one character.
\<close>

fun utf8Decode :: "string \<Rightarrow> string" where
  "utf8Decode (b1 # b2 # r) =
     (let n1 = (of_char b1 :: nat); n2 = (of_char b2 :: nat)
      in if (n1 = 194 \<or> n1 = 195) \<and> 128 \<le> n2 \<and> n2 < 192
         then char_of ((n1 - 192) * 64 + (n2 - 128)) # utf8Decode r
         else b1 # utf8Decode (b2 # r))"
| "utf8Decode s = s"

definition formDecode :: "string \<Rightarrow> string" where
  "formDecode s =
     utf8Decode (percentDecode (map (\<lambda>c. if c = CHR ''+'' then CHR '' '' else c) s))"

definition parsePair :: "string \<Rightarrow> string \<times> string" where
  "parsePair seg =
     (formDecode (takeWhile (\<lambda>c. c \<noteq> CHR ''='') seg),
      formDecode (drop 1 (dropWhile (\<lambda>c. c \<noteq> CHR ''='') seg)))"

text \<open>\<open>new URLSearchParams(init)\<close> on a string: one leading question mark is dropped.\<close>

definition paramsParse :: "string \<Rightarrow> urlSearchParams" where
  "paramsParse init =
     (let q = (case init of [] \<Rightarrow> [] | c # r \<Rightarrow> if c = CHR ''?'' then r else init)
      in map parsePair (filter (\<lambda>seg. seg \<noteq> []) (splitOn (CHR ''&'') q)))"

text \<open>
  The Filter Manager with the part of the window it reads and writes:
  \<open>window.location.pathname\<close> and \<open>window.location.search\<close>. The registered
  listeners are numbered, and \<open>notified\<close> lists the calls made to them, each with
  the selection it was given.
\<close>

record filterManager =
  activeFilters :: filters
  filterCallbacks :: "nat list"
  notified :: "(nat \<times> filters) list"
  locationPathname :: string
  locationSearch :: string

definition newFilterManager :: "string \<Rightarrow> string \<Rightarrow> filterManager" where
  "newFilterManager path query =
     \<lparr>activeFilters = defaultFilters, filterCallbacks = [], notified = [],
      locationPathname = path, locationSearch = query\<rparr>"

text \<open>
  \<open>window.history.replaceState({}, "", newURL)\<close>: the query of the new address is what
  follows its first question mark, and is empty when only the mark is there.
\<close>

definition replaceState :: "string \<Rightarrow> filterManager \<Rightarrow> filterManager" where
  "replaceState newURL fm =
     (let q = dropWhile (\<lambda>c. c \<noteq> CHR ''?'') newURL
      in fm\<lparr>locationSearch := (if length q \<le> 1 then [] else q)\<rparr>)"

text \<open>
  A property value of the selection: a string, or the array of tags.
  \<open>Object.entries\<close> lists the six properties in the order of the literal.
\<close>

datatype filterValue = Str string | Arr "string list"

definition entries :: "filters \<Rightarrow> (string \<times> filterValue) list" where
  "entries f =
     [(''category'', Str (f_category f)), (''grade'', Str (f_grade f)),
      (''year'', Str (f_year f)), (''subject'', Str (f_subject f)),
      (''sortBy'', Str (f_sortBy f)), (''tags'', Arr (f_tags f))]"

definition urlEntry :: "urlSearchParams \<Rightarrow> string \<times> filterValue \<Rightarrow> urlSearchParams" where
  "urlEntry params e =
     (case e of (key, v) \<Rightarrow>
        if v \<noteq> Str ''all'' \<and> v \<noteq> Str ''popular'' \<and> v \<noteq> Str []
        then (case v of
                Arr a \<Rightarrow> if length a > 0 then paramsSet key (joinWith '','' a) params else params
              | Str x \<Rightarrow> paramsSet key x params)
        else params)"

definition urlParams :: "filters \<Rightarrow> urlSearchParams" where
  "urlParams f = foldl urlEntry [] (entries f)"

text \<open>\<open>FilterManager.updateURL\<close>\<close>

definition updateURL :: "filterManager \<Rightarrow> filterManager" where
  "updateURL fm =
     (let params = urlParams (activeFilters fm);
          newURL = (if paramsToString params \<noteq> []
                    then locationPathname fm @ ''?'' @ paramsToString params
                    else locationPathname fm)
      in replaceState newURL fm)"

definition notifyListeners :: "filterManager \<Rightarrow> filterManager" where
  "notifyListeners fm =
     fm\<lparr>notified := notified fm @ map (\<lambda>cb. (cb, activeFilters fm)) (filterCallbacks fm)\<rparr>"

text \<open>\<open>params.get(name) || dflt\<close>: a missing and an empty value give the default.\<close>

definition getOr :: "urlSearchParams \<Rightarrow> string \<Rightarrow> string \<Rightarrow> string" where
  "getOr params name dflt =
     (case paramsGet name params of None \<Rightarrow> dflt | Some v \<Rightarrow> if v = [] then dflt else v)"

text \<open>\<open>FilterManager.initFromURL\<close>; the result is the selection with the manager.\<close>

definition initFromURL :: "filterManager \<Rightarrow> filters \<times> filterManager" where
  "initFromURL fm =
     (let params = paramsParse (locationSearch fm);
          fm1 = fm\<lparr>activeFilters :=
                  \<lparr>f_category = getOr params ''category'' ''all'',
                   f_grade = getOr params ''grade'' ''all'',
                   f_year = getOr params ''year'' ''all'',
                   f_subject = getOr params ''subject'' ''all'',
                   f_sortBy = getOr params ''sort'' ''popular'',
                   f_tags = (case paramsGet ''tags'' params of
                               None \<Rightarrow> []
                             | Some t \<Rightarrow> if t = [] then [] else splitOn (CHR '','') t)\<rparr>\<rparr>;
          fm2 = updateURL fm1
      in (activeFilters fm2, fm2))"

text \<open>
  The keys \<open>setFilter\<close> is called with are those of the five selection controls
  (\<open>createSelectFilter\<close>) and \<open>grade\<close> from the grade buttons; the value is a string.
\<close>

datatype filterKey = Category | Grade | Year | Subject | SortBy

definition keyName :: "filterKey \<Rightarrow> string" where
  "keyName k =
     (case k of Category \<Rightarrow> ''category'' | Grade \<Rightarrow> ''grade'' | Year \<Rightarrow> ''year''
      | Subject \<Rightarrow> ''subject'' | SortBy \<Rightarrow> ''sortBy'')"

definition assign :: "filterKey \<Rightarrow> string \<Rightarrow> filters \<Rightarrow> filters" where
  "assign k v f =
     (case k of
        Category \<Rightarrow> f\<lparr>f_category := v\<rparr>
      | Grade \<Rightarrow> f\<lparr>f_grade := v\<rparr>
      | Year \<Rightarrow> f\<lparr>f_year := v\<rparr>
      | Subject \<Rightarrow> f\<lparr>f_subject := v\<rparr>
      | SortBy \<Rightarrow> f\<lparr>f_sortBy := v\<rparr>)"

text \<open>\<open>FilterManager.setFilter\<close>\<close>

definition setFilter :: "filterKey \<Rightarrow> string \<Rightarrow> filterManager \<Rightarrow> filters \<times> filterManager" where
  "setFilter key v fm =
     (let fm1 = fm\<lparr>activeFilters := assign key v (activeFilters fm)\<rparr>;
          fm2 = updateURL fm1;
          fm3 = notifyListeners fm2
      in (activeFilters fm3, fm3))"

text \<open>\<open>FilterManager.resetFilters\<close>\<close>

definition resetFilters :: "filterManager \<Rightarrow> filters \<times> filterManager" where
  "resetFilters fm =
     (let fm1 = fm\<lparr>activeFilters := defaultFilters\<rparr>;
          fm2 = updateURL fm1;
          fm3 = notifyListeners fm2
      in (activeFilters fm3, fm3))"

text \<open>\<open>FilterManager.toggleTag\<close>: \<open>splice\<close> takes out the first occurrence.\<close>

definition toggleTag :: "string \<Rightarrow> filterManager \<Rightarrow> filterManager" where
  "toggleTag tag fm =
     (let f = activeFilters fm;
          fm1 = (if tag \<notin> set (f_tags f)
                 then fm\<lparr>activeFilters := f\<lparr>f_tags := f_tags f @ [tag]\<rparr>\<rparr>
                 else fm\<lparr>activeFilters := f\<lparr>f_tags := remove1 tag (f_tags f)\<rparr>\<rparr>)
      in notifyListeners (updateURL fm1))"

section \<open>Search Engine\<close>

text \<open>An exception of the page: its name and its message.\<close>

datatype jsError = JsError (errorName: string) (message: string)

text \<open>An entry of \<open>searchIndex\<close>, as \<open>indexResources\<close> builds it.\<close>

record indexEntry =
  ix_id :: string
  ix_title :: string
  ix_description :: string
  ix_subject :: string
  ix_tags :: "string list"
  ix_grade :: string
  ix_year :: string
  ix_category :: string
  searchText :: string

record searchEngine =
  searchIndex :: "indexEntry list"
  isIndexed :: bool
  fullResources :: "resource list option"

definition newSearchEngine :: searchEngine where
  "newSearchEngine = \<lparr>searchIndex = [], isIndexed = False, fullResources = None\<rparr>"

text \<open>\<open>SearchEngine.createSearchText\<close>; \<open>filter(Boolean)\<close> drops the empty strings.\<close>

definition createSearchText :: "resource \<Rightarrow> string" where
  "createSearchText r =
     (let parts = [title r, description r, subject r, grade r, year r] @
                  (case tags r of None \<Rightarrow> [] | Some ts \<Rightarrow> ts)
      in joinWith '' '' (map toLowerCase (filter (\<lambda>part. part \<noteq> []) parts)))"

text \<open>\<open>SearchEngine.indexResources\<close>\<close>

definition indexResources :: "resource list \<Rightarrow> searchEngine \<Rightarrow> searchEngine" where
  "indexResources resources e =
     e\<lparr>fullResources := Some resources,
       searchIndex :=
         map (\<lambda>r. \<lparr>ix_id = ident r, ix_title = title r, ix_description = description r,
                    ix_subject = subject r,
                    ix_tags = (case tags r of None \<Rightarrow> [] | Some ts \<Rightarrow> ts),
                    ix_grade = grade r, ix_year = year r, ix_category = category r,
                    searchText = createSearchText r\<rparr>) resources,
       isIndexed := True\<rparr>"

text \<open>\<open>String.prototype.includes\<close> and \<open>trim\<close>.\<close>

fun includesStr :: "string \<Rightarrow> string \<Rightarrow> bool" where
  "includesStr [] t \<longleftrightarrow> t = []"
| "includesStr (c # s) t \<longleftrightarrow> take (length t) (c # s) = t \<or> includesStr s t"

definition trim :: "string \<Rightarrow> string" where
  "trim s = rev (dropWhile isSpace (rev (dropWhile isSpace s)))"

text \<open>\<open>SearchEngine.calculateRelevance\<close>\<close>

definition calculateRelevance :: "indexEntry \<Rightarrow> string \<Rightarrow> nat" where
  "calculateRelevance item searchTerm =
     (if includesStr (toLowerCase (ix_title item)) searchTerm then 100 else 0) +
     (if includesStr (toLowerCase (ix_subject item)) searchTerm then 50 else 0) +
     (if includesStr (toLowerCase (ix_description item)) searchTerm then 30 else 0) +
     (if list_ex (\<lambda>tag. includesStr (toLowerCase tag) searchTerm) (ix_tags item) then 20 else 0) +
     10 * length (filter (\<lambda>word. includesStr (searchText item) word)
                    (splitOn (CHR '' '') searchTerm))"

text \<open>
  The \<open>filters\<close> option of a search: each of the four properties may be missing.
  An object without any of them is the empty object.
\<close>

record searchFilters =
  sf_category :: "string option"
  sf_grade :: "string option"
  sf_year :: "string option"
  sf_subject :: "string option"

text \<open>\<open>filters.p && field !== filters.p\<close>\<close>

definition rejects :: "string option \<Rightarrow> string \<Rightarrow> bool" where
  "rejects p field = (case p of None \<Rightarrow> False | Some v \<Rightarrow> v \<noteq> [] \<and> field \<noteq> v)"

text \<open>\<open>SearchEngine.applyFilters\<close>\<close>

definition applySearchFilters :: "indexEntry list \<Rightarrow> searchFilters option \<Rightarrow> indexEntry list" where
  "applySearchFilters results filters =
     (case filters of
        None \<Rightarrow> results
      | Some f \<Rightarrow>
          if sf_category f = None \<and> sf_grade f = None \<and> sf_year f = None \<and> sf_subject f = None
          then results
          else filter (\<lambda>item.
                 if rejects (sf_category f) (ix_category item) then False
                 else if rejects (sf_grade f) (ix_grade item) then False
                 else if rejects (sf_year f) (ix_year item) then False
                 else if rejects (sf_subject f) (ix_subject item) then False
                 else True) results)"

record searchOptions =
  returnAll :: bool
  filters :: "searchFilters option"
  limit :: "nat option"

text \<open>
  \<open>SearchEngine.search\<close>. Reading \<open>find\<close> of a missing \<open>fullResources\<close> is the
  TypeError of the page; it needs a result to look up.
\<close>

definition search :: "string \<Rightarrow> searchOptions \<Rightarrow> searchEngine \<Rightarrow> jsError + resource list" where
  "search query options e =
     (if query = [] \<or> \<not> isIndexed e
      then Inr (if returnAll options
                then (case fullResources e of None \<Rightarrow> [] | Some rs \<Rightarrow> rs)
                else [])
      else
        let searchTerm = trim (toLowerCase query);
            results =
              filter (\<lambda>item.
                if includesStr (toLowerCase (ix_title item)) searchTerm then True
                else if includesStr (toLowerCase (ix_description item)) searchTerm then True
                else if includesStr (toLowerCase (ix_subject item)) searchTerm then True
                else if list_ex (\<lambda>tag. includesStr (toLowerCase tag) searchTerm) (ix_tags item)
                  then True
                else list_ex (\<lambda>word. includesStr (searchText item) word)
                       (splitOn (CHR '' '') searchTerm))
                (searchIndex e);
            results =
              sortJS (\<lambda>a b. real (calculateRelevance b searchTerm) -
                             real (calculateRelevance a searchTerm)) results;
            filteredResults = applySearchFilters results (filters options)
        in case fullResources e of
             None \<Rightarrow>
               if filteredResults = [] then Inr []
               else Inl (JsError ''TypeError'' ''Cannot read properties of undefined'')
           | Some full \<Rightarrow>
               let fullResults =
                     List.map_filter (\<lambda>item. find (\<lambda>r. ident r = ix_id item) full)
                       filteredResults
               in (case limit options of
                     None \<Rightarrow> Inr fullResults
                   | Some l \<Rightarrow>
                       if l \<noteq> 0 \<and> length fullResults > l then Inr (take l fullResults)
                       else Inr fullResults))"

section \<open>Download Manager\<close>

text \<open>
  An entry of the Download Manager's history, the value of the storage key
  \<open>downloadHistory\<close>; the three strings the browser adds to it are left out.
\<close>

record downloadData =
  d_url :: string
  d_filename :: string
  d_timestamp :: nat

text \<open>
  A callback of the caller: absent, or a function of the page. Of its call only the
  end matters here: for the call made while the retry counter stands at \<open>r\<close>,
  \<open>Given f\<close> returns when \<open>f r\<close> is \<open>None\<close> and throws \<open>e\<close> when \<open>f r\<close> is \<open>Some e\<close>.
\<close>

datatype callback = NotGiven | Given "nat \<Rightarrow> jsError option"

text \<open>The options of \<open>downloadPDF\<close>.\<close>

record downloadOptions =
  showProgress :: bool
  retryCount :: nat
  onProgress :: callback
  onComplete :: callback
  onError :: callback

definition defaultOptions :: downloadOptions where
  "defaultOptions =
     \<lparr>showProgress = True, retryCount = 0, onProgress = NotGiven, onComplete = NotGiven,
      onError = NotGiven\<rparr>"

datatype callbackCall = OnComplete string string | OnError string string jsError

datatype downloadResult = Succeeded string string | Failed string

text \<open>
  The manager. \<open>downloadHistory\<close> is the stored list, \<open>None\<close> while the key is absent.
  \<open>attempts\<close> counts the entries into the \<open>try\<close> block of \<open>downloadPDF\<close> and
  \<open>calls\<close> lists the callbacks invoked, in order.
\<close>

record downloadManager =
  maxRetries :: nat
  isDownloading :: bool
  downloadHistory :: "downloadData list option"
  attempts :: nat
  calls :: "callbackCall list"

definition newDownloadManager :: downloadManager where
  "newDownloadManager =
     \<lparr>maxRetries = 3, isDownloading = False, downloadHistory = None, attempts = 0,
      calls = []\<rparr>"

text \<open>
  What the page does to one attempt: an exception before the download is recorded
  (from the progress display or the link), an exception of the storage write in
  \<open>trackDownload\<close>, and the time.
\<close>

record attemptEnv =
  linkThrows :: "jsError option"
  storageThrows :: "jsError option"
  clock :: nat

text \<open>
  \<open>DownloadManager.trackDownload\<close>; \<open>Inl\<close> is the exception of \<open>setItem\<close>.
  \<open>sendAnalytics\<close> writes to the console only.
\<close>

definition trackDownload ::
  "jsError option \<Rightarrow> nat \<Rightarrow> string \<Rightarrow> string \<Rightarrow> downloadManager \<Rightarrow> jsError + downloadManager"
  where
  "trackDownload storageFault now url filename dm =
     (let downloadData = \<lparr>d_url = url, d_filename = filename, d_timestamp = now\<rparr>;
          downloads = (case downloadHistory dm of None \<Rightarrow> [] | Some h \<Rightarrow> h);
          downloads = downloadData # downloads;
          downloads = (if length downloads > 1000 then take 1000 downloads else downloads)
      in case storageFault of
           Some e \<Rightarrow> Inl e
         | None \<Rightarrow> Inr (dm\<lparr>downloadHistory := Some downloads\<rparr>))"

text \<open>
  The body of the \<open>try\<close> block: the exception it ends with, if it does, and the
  manager it leaves. \<open>onComplete\<close> is called inside the block, after the download
  has been recorded, so its exception is caught like any other.
\<close>

definition attempt ::
  "attemptEnv \<Rightarrow> string \<Rightarrow> string \<Rightarrow> downloadOptions \<Rightarrow> downloadManager \<Rightarrow>
     jsError option \<times> downloadManager" where
  "attempt a url filename options dm =
     (case linkThrows a of
        Some e \<Rightarrow> (Some e, dm)
      | None \<Rightarrow>
          (case trackDownload (storageThrows a) (clock a) url filename dm of
             Inl e \<Rightarrow> (Some e, dm)
           | Inr dm' \<Rightarrow>
               (case onComplete options of
                  NotGiven \<Rightarrow> (None, dm')
                | Given f \<Rightarrow>
                    (f (retryCount options),
                     dm'\<lparr>calls := calls dm' @ [OnComplete url filename]\<rparr>))))"

text \<open>
  \<open>DownloadManager.downloadPDF\<close>. The attempt made with \<open>retryCount\<close> at \<open>r\<close>
  meets the page \<open>env r\<close>. The result is \<open>Inr\<close> of the value the promise resolves
  with, or \<open>Inl\<close> of the exception it rejects with: \<open>onError\<close> is called in the
  \<open>catch\<close> block, outside any \<open>try\<close>, so its exception leaves the function.
\<close>

function downloadPDF ::
  "(nat \<Rightarrow> attemptEnv) \<Rightarrow> string \<Rightarrow> string \<Rightarrow> downloadOptions \<Rightarrow> downloadManager \<Rightarrow>
     (jsError + downloadResult) \<times> downloadManager" where
  "downloadPDF env url filename options dm =
     (case attempt (env (retryCount options)) url filename options
             (dm\<lparr>attempts := attempts dm + 1\<rparr>) of
        (None, dm') \<Rightarrow> (Inr (Succeeded url filename), dm')
      | (Some error, dm') \<Rightarrow>
          if retryCount options < maxRetries dm'
          then downloadPDF env url filename (options\<lparr>retryCount := retryCount options + 1\<rparr>)
                 dm'
          else
            (case onError options of
               NotGiven \<Rightarrow> (Inr (Failed (message error)), dm')
             | Given f \<Rightarrow>
                 (case f (retryCount options) of
                    None \<Rightarrow> Inr (Failed (message error))
                  | Some e \<Rightarrow> Inl e,
                  dm'\<lparr>calls := calls dm' @ [OnError url filename error]\<rparr>)))"
  by pat_completeness auto
termination
proof (relation "measure (\<lambda>(env, url, filename, options, dm). maxRetries dm - retryCount options)")
  show "wf (measure (\<lambda>(env, url, filename, options, dm). maxRetries dm - retryCount options))"
    by simp
next
  fix env :: "nat \<Rightarrow> attemptEnv" and url filename :: string
    and options :: downloadOptions and dm dm' :: downloadManager
    and x :: "jsError option" and error :: jsError
  assume "(x, dm') = attempt (env (retryCount options)) url filename options
        (dm\<lparr>attempts := attempts dm + 1\<rparr>)"
    and "x = Some error" and lt: "retryCount options < maxRetries dm'"
  then have "dm' = snd (attempt (env (retryCount options)) url filename options
        (dm\<lparr>attempts := attempts dm + 1\<rparr>))"
    by (metis snd_conv)
  then have "maxRetries dm' = maxRetries dm"
    by (simp add: attempt_def trackDownload_def Let_def
        split: option.splits sum.splits callback.splits)
  with lt
  show "((env, url, filename, options\<lparr>retryCount := retryCount options + 1\<rparr>, dm'),
         (env, url, filename, options, dm))
        \<in> measure (\<lambda>(env, url, filename, options, dm). maxRetries dm - retryCount options)"
    by simp
qed

declare downloadPDF.simps [simp del]

text \<open>The exception an attempt ends with, if it does.\<close>

definition thrown :: "attemptEnv \<Rightarrow> jsError option" where
  "thrown a = (case linkThrows a of Some e \<Rightarrow> Some e | None \<Rightarrow> storageThrows a)"

section \<open>Key-Value Store Wrapper\<close>

text \<open>
  The values the wrapper stores for the download history and the favourites are
  arrays: of history items, of identifiers. \<open>JSON.stringify\<close> and \<open>JSON.parse\<close>
  take such a value to its text and back, and the model keeps the value.
\<close>

record historyItem =
  h_id :: string
  h_title :: string
  h_url :: string
  h_type :: string
  h_fileSize :: string
  h_timestamp :: nat

datatype jsValue = IdV string | ItemV historyItem

text \<open>The envelope \<open>set\<close> writes; \<open>val\<close> is its property \<open>value\<close>.\<close>

record envelope =
  val :: "jsValue list"
  timestamp :: nat
  expires :: "nat option"
  version :: string

text \<open>
  What a key of \<open>localStorage\<close> holds: the text of an envelope, or a text
  \<open>JSON.parse\<close> rejects (the empty text among them). \<open>localStorage\<close> lists its keys
  in the order \<open>localStorage.key\<close> numbers them, taken to be the order of first
  writing.
\<close>

datatype stored = Envelope envelope | Unparseable

type_synonym localStorage = "(string \<times> stored) list"

definition getItem :: "string \<Rightarrow> localStorage \<Rightarrow> stored option" where
  "getItem key ls = map_of ls key"

definition setItem :: "string \<Rightarrow> stored \<Rightarrow> localStorage \<Rightarrow> localStorage" where
  "setItem key v ls = AList.update key v ls"

definition removeItem :: "string \<Rightarrow> localStorage \<Rightarrow> localStorage" where
  "removeItem key ls = AList.delete key ls"

definition storagePrefix :: string where
  "storagePrefix = ''examportal_''"

definition startsWith :: "string \<Rightarrow> string \<Rightarrow> bool" where
  "startsWith s p \<longleftrightarrow> take (length p) s = p"

text \<open>\<open>data.expires && now > data.expires\<close>\<close>

definition isExpired :: "nat \<Rightarrow> envelope \<Rightarrow> bool" where
  "isExpired now d = (case expires d of None \<Rightarrow> False | Some t \<Rightarrow> t \<noteq> 0 \<and> now > t)"

text \<open>\<open>StorageManager.remove\<close>\<close>

definition removeKey :: "string \<Rightarrow> localStorage \<Rightarrow> bool \<times> localStorage" where
  "removeKey key ls = (True, removeItem (storagePrefix @ key) ls)"

text \<open>
  \<open>StorageManager.get\<close>: the value with the store, from which an expired entry has
  been removed.
\<close>

definition getKey :: "nat \<Rightarrow> string \<Rightarrow> jsValue list \<Rightarrow> localStorage \<Rightarrow> jsValue list \<times> localStorage"
  where
  "getKey now key defaultValue ls =
     (case getItem (storagePrefix @ key) ls of
        None \<Rightarrow> (defaultValue, ls)
      | Some Unparseable \<Rightarrow> (defaultValue, ls)
      | Some (Envelope data) \<Rightarrow>
          if isExpired now data then (defaultValue, snd (removeKey key ls))
          else (val data, ls))"

text \<open>
  The loop of \<open>StorageManager.clearExpired\<close>, from index \<open>i\<close> with \<open>cleared\<close>
  entries removed so far. The index moves on after a removal as well.
\<close>

function clearExpiredFrom :: "nat \<Rightarrow> nat \<Rightarrow> nat \<Rightarrow> localStorage \<Rightarrow> nat \<times> localStorage" where
  "clearExpiredFrom now i cleared ls =
     (if i < length ls
      then
        (let key = fst (ls ! i)
         in if startsWith key storagePrefix
            then (case getItem key ls of
                    Some (Envelope data) \<Rightarrow>
                      if isExpired now data
                      then clearExpiredFrom now (i + 1) (cleared + 1) (removeItem key ls)
                      else clearExpiredFrom now (i + 1) cleared ls
                  | _ \<Rightarrow> clearExpiredFrom now (i + 1) (cleared + 1) (removeItem key ls))
            else clearExpiredFrom now (i + 1) cleared ls)
      else (cleared, ls))"
  by pat_completeness auto
termination
proof -
  have shorter: "length (removeItem (fst (ls ! i)) ls) - Suc i < length ls - i"
    if "i < length ls" for i and ls :: localStorage
  proof -
    from that have "ls ! i \<in> set ls" by simp
    then have "length (filter (\<lambda>(k, v). fst (ls ! i) \<noteq> k) ls) < length ls"
      by (rule length_filter_less) (simp add: case_prod_beta)
    then have "length (removeItem (fst (ls ! i)) ls) < length ls"
      by (simp add: removeItem_def AList.delete_eq)
    with that show ?thesis by simp
  qed
  show ?thesis
    by (relation "measure (\<lambda>(now, i, cleared, ls). length ls - i)") (auto simp: shorter)
qed

declare clearExpiredFrom.simps [simp del]

text \<open>\<open>StorageManager.clearExpired\<close>\<close>

definition clearExpired :: "nat \<Rightarrow> localStorage \<Rightarrow> nat \<times> localStorage" where
  "clearExpired now ls = clearExpiredFrom now 0 0 ls"

text \<open>
  What \<open>localStorage.setItem\<close> does with a write: it stores, or throws for a full
  store, or throws otherwise.
\<close>

datatype writeResult = Stores | QuotaExceeded | Throws

record setOptions =
  o_expires :: "nat option"
  o_version :: "string option"

definition noOptions :: setOptions where
  "noOptions = \<lparr>o_expires = None, o_version = None\<rparr>"

text \<open>
  \<open>StorageManager.set\<close>. \<open>first\<close> and \<open>again\<close> are what the store does with the
  first write and with the one after the cleanup.
\<close>

definition setKey ::
  "writeResult \<Rightarrow> writeResult \<Rightarrow> nat \<Rightarrow> string \<Rightarrow> jsValue list \<Rightarrow> setOptions \<Rightarrow> localStorage \<Rightarrow>
     bool \<times> localStorage" where
  "setKey first again now key v options ls =
     (let fullKey = storagePrefix @ key;
          data = \<lparr>val = v, timestamp = now,
                  expires = (case o_expires options of
                               None \<Rightarrow> None
                             | Some d \<Rightarrow> if d \<noteq> 0 then Some (now + d) else None),
                  version = (case o_version options of
                               None \<Rightarrow> ''1.0''
                             | Some w \<Rightarrow> if w \<noteq> [] then w else ''1.0'')\<rparr>
      in case first of
           Stores \<Rightarrow> (True, setItem fullKey (Envelope data) ls)
         | QuotaExceeded \<Rightarrow>
             (let ls' = snd (clearExpired now ls)
              in case again of
                   Stores \<Rightarrow> (True, setItem fullKey (Envelope data) ls')
                 | _ \<Rightarrow> (False, ls'))
         | Throws \<Rightarrow> (False, ls))"

text \<open>\<open>StorageManager.getDownloadHistory\<close> and \<open>addToDownloadHistory\<close>\<close>

definition getDownloadHistory :: "nat \<Rightarrow> localStorage \<Rightarrow> jsValue list \<times> localStorage" where
  "getDownloadHistory now ls = getKey now ''download_history'' [] ls"

definition addToDownloadHistory ::
  "writeResult \<Rightarrow> writeResult \<Rightarrow> nat \<Rightarrow> historyItem \<Rightarrow> localStorage \<Rightarrow> bool \<times> localStorage" where
  "addToDownloadHistory first again now item ls =
     (let (history, ls1) = getDownloadHistory now ls;
          history = ItemV (item\<lparr>h_timestamp := now\<rparr>) # history;
          history = (if length history > 100 then take 100 history else history)
      in setKey first again now ''download_history'' history noOptions ls1)"

text \<open>\<open>StorageManager.getFavorites\<close>, \<open>addFavorite\<close>, \<open>removeFavorite\<close>, \<open>isFavorite\<close>\<close>

definition getFavorites :: "nat \<Rightarrow> localStorage \<Rightarrow> jsValue list \<times> localStorage" where
  "getFavorites now ls = getKey now ''favorites'' [] ls"

definition addFavorite ::
  "writeResult \<Rightarrow> writeResult \<Rightarrow> nat \<Rightarrow> string \<Rightarrow> localStorage \<Rightarrow> bool \<times> localStorage" where
  "addFavorite first again now itemId ls =
     (let (favorites, ls1) = getFavorites now ls
      in if IdV itemId \<notin> set favorites
         then setKey first again now ''favorites'' (favorites @ [IdV itemId]) noOptions ls1
         else (True, ls1))"

definition removeFavorite ::
  "writeResult \<Rightarrow> writeResult \<Rightarrow> nat \<Rightarrow> string \<Rightarrow> localStorage \<Rightarrow> bool \<times> localStorage" where
  "removeFavorite first again now itemId ls =
     (let (favorites, ls1) = getFavorites now ls
      in if IdV itemId \<in> set favorites
         then setKey first again now ''favorites'' (remove1 (IdV itemId) favorites) noOptions ls1
         else (True, ls1))"

definition isFavorite :: "nat \<Rightarrow> string \<Rightarrow> localStorage \<Rightarrow> bool \<times> localStorage" where
  "isFavorite now itemId ls =
     (let (favorites, ls1) = getFavorites now ls in (IdV itemId \<in> set favorites, ls1))"

text \<open>The list a key of the wrapper holds in the store, whatever the time.\<close>

definition storedList :: "string \<Rightarrow> localStorage \<Rightarrow> jsValue list" where
  "storedList key ls =
     (case getItem (storagePrefix @ key) ls of Some (Envelope data) \<Rightarrow> val data | _ \<Rightarrow> [])"

section \<open>Application Controller: the download history in memory\<close>

record downloadRecord =
  r_id :: string
  r_title :: string
  r_type :: string
  r_timestamp :: nat

text \<open>
  The list \<open>this.downloadHistory\<close> of the controller starts as the stored history
  and grows by the records \<open>trackDownload\<close> makes.
\<close>

datatype portalEntry = Loaded jsValue | Tracked downloadRecord

text \<open>
  \<open>ExamPortal.trackDownload\<close> on the list; \<open>updateStatistics\<close> only writes to the
  document.
\<close>

definition portalTrackDownload ::
  "nat \<Rightarrow> string \<Rightarrow> string \<Rightarrow> string \<Rightarrow> portalEntry list \<Rightarrow> portalEntry list" where
  "portalTrackDownload now i t ty history =
     (let downloadRecord = \<lparr>r_id = i, r_title = t, r_type = ty, r_timestamp = now\<rparr>;
          history = Tracked downloadRecord # history
      in if length history > 100 then take 100 history else history)"

section \<open>Sequences of recorded downloads\<close>

text \<open>
  The three histories after a sequence of recorded downloads, each download with what
  it is recorded with. An exception of \<open>DownloadManager.trackDownload\<close> is caught by
  \<open>downloadPDF\<close> and leaves the manager as it was.
\<close>

definition portalTrackAll ::
  "(nat \<times> string \<times> string \<times> string) list \<Rightarrow> portalEntry list \<Rightarrow> portalEntry list" where
  "portalTrackAll ds history =
     foldl (\<lambda>h (now, i, t, ty). portalTrackDownload now i t ty h) history ds"

definition addAllToDownloadHistory ::
  "(writeResult \<times> writeResult \<times> nat \<times> historyItem) list \<Rightarrow> localStorage \<Rightarrow> localStorage" where
  "addAllToDownloadHistory ds ls =
     foldl (\<lambda>s (first, again, now, item). snd (addToDownloadHistory first again now item s)) ls ds"

definition trackDownloadAll ::
  "(jsError option \<times> nat \<times> string \<times> string) list \<Rightarrow> downloadManager \<Rightarrow> downloadManager" where
  "trackDownloadAll ds dm =
     foldl (\<lambda>m (fault, now, url, filename).
              case trackDownload fault now url filename m of Inl e \<Rightarrow> m | Inr m' \<Rightarrow> m') dm ds"

definition storedDownloads :: "downloadManager \<Rightarrow> downloadData list" where
  "storedDownloads dm = (case downloadHistory dm of None \<Rightarrow> [] | Some h \<Rightarrow> h)"

text \<open>
  What a recorded download leaves in a history, and whether it is stored at all: the
  wrapper stores when its write, or the write after the cleanup, is taken; the manager
  stores when its write does not throw.
\<close>

definition trackedRecord :: "nat \<times> string \<times> string \<times> string \<Rightarrow> portalEntry" where
  "trackedRecord d =
     (case d of (now, i, t, ty) \<Rightarrow>
        Tracked \<lparr>r_id = i, r_title = t, r_type = ty, r_timestamp = now\<rparr>)"

definition storedItem :: "writeResult \<times> writeResult \<times> nat \<times> historyItem \<Rightarrow> jsValue" where
  "storedItem d = (case d of (first, again, now, item) \<Rightarrow> ItemV (item\<lparr>h_timestamp := now\<rparr>))"

definition isWritten :: "writeResult \<times> writeResult \<times> nat \<times> historyItem \<Rightarrow> bool" where
  "isWritten d =
     (case d of (first, again, now, item) \<Rightarrow>
        first = Stores \<or> first = QuotaExceeded \<and> again = Stores)"

definition downloadEntry :: "jsError option \<times> nat \<times> string \<times> string \<Rightarrow> downloadData" where
  "downloadEntry d =
     (case d of (fault, now, url, filename) \<Rightarrow>
        \<lparr>d_url = url, d_filename = filename, d_timestamp = now\<rparr>)"

definition isRecorded :: "jsError option \<times> nat \<times> string \<times> string \<Rightarrow> bool" where
  "isRecorded d = (case d of (fault, now, url, filename) \<Rightarrow> fault = None)"

text \<open>
  A key as the wrapper leaves it when it writes without options: absent, or an
  envelope that does not expire.
\<close>

definition keptByWrapper :: "string \<Rightarrow> localStorage \<Rightarrow> bool" where
  "keptByWrapper key ls =
     (case getItem (storagePrefix @ key) ls of
        None \<Rightarrow> True
      | Some (Envelope d) \<Rightarrow> expires d = None
      | Some Unparseable \<Rightarrow> False)"

text \<open>For the examples: \<open>n\<close> entries numbered \<open>n - 1\<close> down to 0, the newest first.\<close>

definition numbered :: "(nat \<Rightarrow> 'a) \<Rightarrow> nat \<Rightarrow> 'a list" where
  "numbered f n = map f (rev [0..<n])"

definition exampleItem :: "nat \<Rightarrow> historyItem" where
  "exampleItem n =
     \<lparr>h_id = ''a'', h_title = ''A'', h_url = ''/a.pdf'', h_type = ''resource'',
      h_fileSize = ''1 KB'', h_timestamp = n\<rparr>"

section \<open>Analytics Tracker\<close>

text \<open>
  An event: its type, its own fields as one text, its time, and the two identifiers
  \<open>queueEvent\<close> stamps it with.
\<close>

datatype eventType =
  Pageview | Download | Search | Filter | Interaction | ErrorEvent | Performance

record event =
  ev_type :: eventType
  ev_fields :: string
  ev_timestamp :: nat
  sessionId :: "string option"
  userId :: "string option"

text \<open>
  The tracker with the storage keys it owns: \<open>persisted\<close> is the key
  \<open>analytics_queue\<close>, and the session and user identifiers are their keys; \<open>None\<close> is
  an absent key. \<open>inFlight\<close> lists the batches given to \<open>fetch\<close> whose answer has not
  come.
\<close>

record tracker =
  enabled :: bool
  queue :: "event list"
  persisted :: "event list option"
  storedSessionId :: "string option"
  storedSessionExpiry :: "nat option"
  storedUserId :: "string option"
  inFlight :: "event list list"

text \<open>The constructor; \<open>loadQueue\<close> takes the stored queue if there is one.\<close>

definition loadQueue :: "tracker \<Rightarrow> tracker" where
  "loadQueue t = (case persisted t of None \<Rightarrow> t | Some saved \<Rightarrow> t\<lparr>queue := saved\<rparr>)"

definition newTracker ::
  "event list option \<Rightarrow> string option \<Rightarrow> nat option \<Rightarrow> string option \<Rightarrow> tracker" where
  "newTracker saved sid expiry uid =
     loadQueue \<lparr>enabled = True, queue = [], persisted = saved, storedSessionId = sid,
                storedSessionExpiry = expiry, storedUserId = uid, inFlight = []\<rparr>"

text \<open>
  What the page gives one call of \<open>queueEvent\<close>: the time, the identifiers
  \<open>generateId\<close> would make for a session and for a user, whether
  \<open>localStorage.setItem\<close> takes the queue or throws, and for each of the three
  writes of an identifier or of the session expiry the exception \<open>setItem\<close> throws,
  \<open>None\<close> when it stores.
\<close>

record callEnv =
  callTime :: nat
  freshSession :: string
  freshUser :: string
  saveSucceeds :: bool
  sessionIdFault :: "jsError option"
  sessionExpiryFault :: "jsError option"
  userIdFault :: "jsError option"

text \<open>
  \<open>AnalyticsTracker.getSessionId\<close>; four hours are 14400000 milliseconds. The two
  writes are not guarded: \<open>Inl\<close> is the exception of the one that throws, and a write
  made before it stays.
\<close>

definition getSessionId :: "callEnv \<Rightarrow> tracker \<Rightarrow> (jsError + string) \<times> tracker" where
  "getSessionId c t =
     (let renew =
            (case sessionIdFault c of
               Some e \<Rightarrow> (Inl e, t)
             | None \<Rightarrow>
                 let t1 = t\<lparr>storedSessionId := Some (freshSession c)\<rparr>
                 in case sessionExpiryFault c of
                      Some e \<Rightarrow> (Inl e, t1)
                    | None \<Rightarrow>
                        (Inr (freshSession c),
                         t1\<lparr>storedSessionExpiry := Some (callTime c + 4 * 60 * 60 * 1000)\<rparr>))
      in case storedSessionId t of
           None \<Rightarrow> renew
         | Some sid \<Rightarrow>
             if sid = [] then renew
             else (case storedSessionExpiry t of
                     None \<Rightarrow> renew
                   | Some expiry \<Rightarrow> if callTime c > expiry then renew else (Inr sid, t)))"

text \<open>\<open>AnalyticsTracker.getUserId\<close>, its write not guarded either.\<close>

definition getUserId :: "callEnv \<Rightarrow> tracker \<Rightarrow> (jsError + string) \<times> tracker" where
  "getUserId c t =
     (let renew =
            (case userIdFault c of
               Some e \<Rightarrow> (Inl e, t)
             | None \<Rightarrow>
                 (Inr (''anonymous_'' @ freshUser c),
                  t\<lparr>storedUserId := Some (''anonymous_'' @ freshUser c)\<rparr>))
      in case storedUserId t of
           None \<Rightarrow> renew
         | Some uid \<Rightarrow> if uid = [] then renew else (Inr uid, t))"

text \<open>\<open>AnalyticsTracker.saveQueue\<close>: an exception of the write is caught and logged.\<close>

definition saveQueue :: "bool \<Rightarrow> tracker \<Rightarrow> tracker" where
  "saveQueue succeeds t = (if succeeds then t\<lparr>persisted := Some (queue t)\<rparr> else t)"

text \<open>
  \<open>AnalyticsTracker.sendEvents\<close> up to its \<open>await\<close>: the batch goes to \<open>fetch\<close>.
\<close>

definition sendEventsStart :: "event list \<Rightarrow> tracker \<Rightarrow> tracker" where
  "sendEventsStart events t = t\<lparr>inFlight := inFlight t @ [events]\<rparr>"

text \<open>
  \<open>AnalyticsTracker.sendEvents\<close> from its \<open>await\<close> on: \<open>delivered\<close> says that the
  answer came and was \<open>ok\<close>; otherwise the \<open>catch\<close> block runs.
\<close>

definition sendEventsSettle :: "bool \<Rightarrow> bool \<Rightarrow> event list \<Rightarrow> tracker \<Rightarrow> bool \<times> tracker" where
  "sendEventsSettle delivered saves events t =
     (let t1 = t\<lparr>inFlight := remove1 events (inFlight t)\<rparr>
      in if delivered then (True, t1\<lparr>persisted := None\<rparr>)
         else (False, saveQueue saves (t1\<lparr>queue := events @ queue t1\<rparr>)))"

text \<open>
  What the page does with a synchronous send: the beacon, when there is one, takes the
  batch or refuses it; the blocking request ends with a status, or throws.
\<close>

datatype beacon = NoBeacon | BeaconQueued | BeaconRefused

record syncEnv =
  sendBeacon :: beacon
  xhrStatus :: "nat option"
  syncSaveSucceeds :: bool

text \<open>\<open>AnalyticsTracker.sendEventsSync\<close>\<close>

definition sendEventsSync :: "syncEnv \<Rightarrow> event list \<Rightarrow> tracker \<Rightarrow> bool \<times> tracker" where
  "sendEventsSync c events t =
     (if sendBeacon c = BeaconQueued then (True, t\<lparr>persisted := None\<rparr>)
      else (case xhrStatus c of
              Some status \<Rightarrow>
                if status \<ge> 200 \<and> status < 300 then (True, t\<lparr>persisted := None\<rparr>)
                else (False, saveQueue (syncSaveSucceeds c) (t\<lparr>queue := events\<rparr>))
            | None \<Rightarrow> (False, saveQueue (syncSaveSucceeds c) (t\<lparr>queue := events\<rparr>))))"

text \<open>
  \<open>AnalyticsTracker.flushQueue\<close>, without and with \<open>sync\<close>. Without it the call
  returns to the page at the \<open>await\<close> of \<open>sendEvents\<close>.
\<close>

definition flushQueue :: "tracker \<Rightarrow> tracker" where
  "flushQueue t =
     (if queue t = [] \<or> \<not> enabled t then t
      else
        let eventsToSend = queue t
        in sendEventsStart eventsToSend (t\<lparr>queue := []\<rparr>))"

definition flushQueueSync :: "syncEnv \<Rightarrow> tracker \<Rightarrow> tracker" where
  "flushQueueSync c t =
     (if queue t = [] \<or> \<not> enabled t then t
      else
        let eventsToSend = queue t
        in snd (sendEventsSync c eventsToSend (t\<lparr>queue := []\<rparr>)))"

text \<open>
  \<open>AnalyticsTracker.queueEvent\<close>: \<open>Inr\<close> of the value it returns, or \<open>Inl\<close> of the
  exception it throws, which comes from the identifiers, before the event is pushed.
\<close>

definition queueEvent :: "callEnv \<Rightarrow> event \<Rightarrow> tracker \<Rightarrow> (jsError + bool) \<times> tracker" where
  "queueEvent c ev t =
     (if \<not> enabled t then (Inr False, t)
      else
        case getSessionId c t of
          (Inl e, t1) \<Rightarrow> (Inl e, t1)
        | (Inr sid, t1) \<Rightarrow>
            let ev1 = ev\<lparr>sessionId := Some sid\<rparr>
            in case getUserId c t1 of
                 (Inl e, t2) \<Rightarrow> (Inl e, t2)
               | (Inr uid, t2) \<Rightarrow>
                   let ev2 = (if uid \<noteq> [] then ev1\<lparr>userId := Some uid\<rparr> else ev1);
                       t3 = t2\<lparr>queue := queue t2 @ [ev2]\<rparr>;
                       t4 = saveQueue (saveSucceeds c) t3;
                       t5 = (if length (queue t4) \<ge> 20 then flushQueue t4 else t4)
                   in (Inr True, t5))"

text \<open>\<open>AnalyticsTracker.setEnabled\<close>\<close>

definition setEnabled :: "bool \<Rightarrow> tracker \<Rightarrow> tracker" where
  "setEnabled e t =
     (if \<not> e then t\<lparr>enabled := e, queue := [], persisted := None\<rparr> else t\<lparr>enabled := e\<rparr>)"

text \<open>
  The event as it stands in the queue after a \<open>queueEvent\<close> that returned, and the
  tracker after the calls of a list, one after the other, were made.
\<close>

definition stamped :: "callEnv \<Rightarrow> event \<Rightarrow> tracker \<Rightarrow> event" where
  "stamped c ev t =
     (case getSessionId c t of
        (Inl e, t1) \<Rightarrow> ev
      | (Inr sid, t1) \<Rightarrow>
          let ev1 = ev\<lparr>sessionId := Some sid\<rparr>
          in case getUserId c t1 of
               (Inl e, t2) \<Rightarrow> ev1
             | (Inr uid, t2) \<Rightarrow> if uid \<noteq> [] then ev1\<lparr>userId := Some uid\<rparr> else ev1)"

definition queueAll :: "(callEnv \<times> event) list \<Rightarrow> tracker \<Rightarrow> tracker" where
  "queueAll es t = foldl (\<lambda>s (c, ev). snd (queueEvent c ev s)) t es"

text \<open>
  Of the calls of a list, the events of those that returned \<open>true\<close>, in the order of
  the calls: as they were given, and as they stand in the queue. A call that throws
  is passed over.
\<close>

fun accepted :: "(callEnv \<times> event) list \<Rightarrow> tracker \<Rightarrow> event list" where
  "accepted [] t = []"
| "accepted ((c, ev) # es) t =
     (if fst (queueEvent c ev t) = Inr True then [ev] else []) @
     accepted es (snd (queueEvent c ev t))"

fun stampedAll :: "(callEnv \<times> event) list \<Rightarrow> tracker \<Rightarrow> event list" where
  "stampedAll [] t = []"
| "stampedAll ((c, ev) # es) t =
     (if fst (queueEvent c ev t) = Inr True then [stamped c ev t] else []) @
     stampedAll es (snd (queueEvent c ev t))"

text \<open>What an event says, apart from the two identifiers.\<close>

definition content :: "event \<Rightarrow> eventType \<times> string \<times> nat" where
  "content ev = (ev_type ev, ev_fields ev, ev_timestamp ev)"

text \<open>For the examples: a page view, a call of the page, and a tracker with a session.\<close>

definition exampleEvent :: "nat \<Rightarrow> event" where
  "exampleEvent n =
     \<lparr>ev_type = Pageview, ev_fields = ''/index.html'', ev_timestamp = n,
      sessionId = Some ''s1'', userId = Some ''u1''\<rparr>"

definition exampleCall :: "nat \<Rightarrow> bool \<Rightarrow> callEnv" where
  "exampleCall n saves =
     \<lparr>callTime = n, freshSession = ''s2'', freshUser = ''u2'', saveSucceeds = saves,
      sessionIdFault = None, sessionExpiryFault = None, userIdFault = None\<rparr>"

definition exampleTracker :: "event list \<Rightarrow> tracker" where
  "exampleTracker q =
     \<lparr>enabled = True, queue = q, persisted = Some q, storedSessionId = Some ''s1'',
      storedSessionExpiry = Some 14400000, storedUserId = Some ''u1'', inFlight = []\<rparr>"

section \<open>Properties: file sizes\<close>

text \<open>\<open>floorLog\<close> is the floor of the logarithm.\<close>

lemma floorLog_bounds:
  "1 < k \<Longrightarrow> 0 < n \<Longrightarrow> k ^ floorLog k n \<le> n \<and> n < k ^ (floorLog k n + 1)"
proof (induction k n rule: floorLog.induct)
  case (1 k n)
  show ?case
  proof (cases "n < k")
    case True
    with 1(3) show ?thesis by (subst (1 2) floorLog.simps) simp
  next
    case False
    with 1(2) have c: "\<not> (k \<le> 1 \<or> n < k)" by simp
    have pos: "0 < n div k" using False 1(2) by (simp add: div_greater_zero_iff)
    from 1(1) [OF c 1(2) pos]
    have IH: "k ^ floorLog k (n div k) \<le> n div k" "n div k < k ^ (floorLog k (n div k) + 1)"
      by simp_all
    have step: "floorLog k n = Suc (floorLog k (n div k))"
      using c by (subst floorLog.simps) simp
    have "k * k ^ floorLog k (n div k) \<le> k * (n div k)" using IH(1) by simp
    also have "\<dots> \<le> n" by simp
    finally have lower: "k ^ floorLog k n \<le> n" by (simp add: step)
    have "n div k + 1 \<le> k ^ (floorLog k (n div k) + 1)" using IH(2) by simp
    then have "k * (n div k + 1) \<le> k * k ^ (floorLog k (n div k) + 1)"
      by (rule mult_le_mono2)
    moreover have "n < k * (n div k + 1)"
      using 1(2) by (metis Suc_eq_plus1 dividend_less_times_div mult.commute add.commute
          less_trans zero_less_one mult_Suc_right)
    ultimately have "n < k ^ (floorLog k n + 1)" by (simp add: step)
    with lower show ?thesis by simp
  qed
qed

lemma digitChar_isDigit: "d < 10 \<Longrightarrow> isDigit (digitChar d)"
proof -
  assume "d < 10"
  then have "d \<in> {0,1,2,3,4,5,6,7,8,9}" by auto
  then show ?thesis by (auto simp: isDigit_def digitChar_def)
qed

lemma natToString_digits: "list_all isDigit (natToString n)"
proof (induction n rule: natToString.induct)
  case (1 n)
  show ?case
  proof (cases "n < 10")
    case True
    then show ?thesis by (subst natToString.simps) (simp add: digitChar_isDigit)
  next
    case False
    with 1 show ?thesis by (subst natToString.simps) (simp add: digitChar_isDigit)
  qed
qed

lemma natToString_nonempty: "natToString n \<noteq> []"
  by (subst natToString.simps) simp

lemma floorLog_small: "n < k \<Longrightarrow> floorLog k n = 0"
  by (subst floorLog.simps) simp

lemma fixed2ToString_one: "fixed2ToString n 1 = natToString n"
proof -
  have "(200 * n + 1) div 2 = 100 * n" by presburger
  then show ?thesis by (simp add: fixed2ToString_def)
qed

lemma formatFileSize_below_k:
  assumes "1 \<le> n" "n \<le> 1023"
  shows "formatFileSize n = natToString n @ '' Bytes''"
proof -
  have "floorLog 1024 n = 0" using assms by (intro floorLog_small) simp
  with assms show ?thesis
    using fixed2ToString_one [of n] by (simp add: formatFileSize_def)
qed

lemma isSpace_not_isDigit: "isSpace c \<Longrightarrow> \<not> isDigit c"
  by (auto simp: isSpace_def isDigit_def)

lemma takeWhile_digits_append:
  "list_all isDigit ds \<Longrightarrow> \<not> isDigit c \<Longrightarrow> takeWhile isDigit (ds @ c # r) = ds"
  by (induction ds) auto

lemma dropWhile_digits_append:
  "list_all isDigit ds \<Longrightarrow> \<not> isDigit c \<Longrightarrow> dropWhile isDigit (ds @ c # r) = c # r"
  by (induction ds) auto

lemma matchSize_Bytes:
  assumes "list_all isDigit ds" "ds \<noteq> []"
  shows "matchSize (ds @ '' Bytes'') = None"
proof -
  have nd: "\<not> isDigit (CHR '' '')" by (simp add: isDigit_def)
  have t: "takeWhile isDigit (ds @ '' Bytes'') = ds"
    using takeWhile_digits_append [OF assms(1) nd] by simp
  have d: "dropWhile isDigit (ds @ '' Bytes'') = '' Bytes''"
    using dropWhile_digits_append [OF assms(1) nd] by simp
  show ?thesis
    unfolding matchSize_def t d using assms(2)
    by (simp add: isSpace_def toUpperCase_def upperChar_def)
qed

lemma takeWhile_all_append:
  "list_all P xs \<Longrightarrow> ys = [] \<or> \<not> P (hd ys) \<Longrightarrow> takeWhile P (xs @ ys) = xs"
  by (induction xs) (cases ys; auto)+

lemma dropWhile_all_append:
  "list_all P xs \<Longrightarrow> ys = [] \<or> \<not> P (hd ys) \<Longrightarrow> dropWhile P (xs @ ys) = ys"
  by (induction xs) (cases ys; auto)+

lemma list_all_takeWhile: "list_all P (takeWhile P xs)"
  by (induction xs) auto

lemma upperChar_B: "upperChar c = CHR ''B'' \<Longrightarrow> c = CHR ''b'' \<or> c = CHR ''B''"
  by (auto simp: upperChar_def split: if_splits)

lemma upperChar_K: "upperChar c = CHR ''K'' \<Longrightarrow> c = CHR ''k'' \<or> c = CHR ''K''"
  by (auto simp: upperChar_def split: if_splits)

lemma upperChar_M: "upperChar c = CHR ''M'' \<Longrightarrow> c = CHR ''m'' \<or> c = CHR ''M''"
  by (auto simp: upperChar_def split: if_splits)

lemma upperChar_G: "upperChar c = CHR ''G'' \<Longrightarrow> c = CHR ''g'' \<or> c = CHR ''G''"
  by (auto simp: upperChar_def split: if_splits)

lemma unit_first:
  assumes "toUpperCase u \<in> set [''B'', ''KB'', ''MB'', ''GB'']"
  shows "u \<noteq> [] \<and> \<not> isDigit (hd u) \<and> \<not> isSpace (hd u) \<and> hd u \<noteq> CHR ''.''"
proof -
  from assms obtain c r where u: "u = c # r" and
    c: "upperChar c \<in> {CHR ''B'', CHR ''K'', CHR ''M'', CHR ''G''}"
    by (cases u) (auto simp: toUpperCase_def)
  from c have "c \<in> set ''bBkKmMgG''"
    using upperChar_B upperChar_K upperChar_M upperChar_G by auto
  then show ?thesis unfolding u by (auto simp: isDigit_def isSpace_def)
qed

lemma matchSize_sound:
  assumes "matchSize s = Some (number, unit)"
  shows "size_pattern s"
proof -
  define ip where "ip = takeWhile isDigit s"
  define r1 where "r1 = dropWhile isDigit s"
  have s: "s = ip @ r1" by (simp add: ip_def r1_def)
  have ip: "ip \<noteq> []" "list_all isDigit ip"
    using assms by (auto simp: matchSize_def ip_def list_all_takeWhile split: if_splits)
  show ?thesis
  proof (cases "\<exists>r. r1 = CHR ''.'' # r \<and> takeWhile isDigit r \<noteq> []")
    case True
    then obtain r where r: "r1 = CHR ''.'' # r" "takeWhile isDigit r \<noteq> []" by blast
    define fd where "fd = takeWhile isDigit r"
    define r2 where "r2 = dropWhile isDigit r"
    have u: "toUpperCase (dropWhile isSpace r2) \<in> set [''B'', ''KB'', ''MB'', ''GB'']"
      using assms ip(1) r unfolding matchSize_def ip_def [symmetric] r1_def [symmetric] r2_def
      by (simp add: Let_def split: if_splits)
    have "s = ip @ (CHR ''.'' # fd) @ takeWhile isSpace r2 @ dropWhile isSpace r2"
      by (simp add: s r fd_def r2_def)
    moreover have "fd \<noteq> []" "list_all isDigit fd"
      using r by (simp_all add: fd_def list_all_takeWhile)
    ultimately show ?thesis
      unfolding size_pattern_def using ip u list_all_takeWhile [of isSpace r2] by blast
  next
    case False
    then have "(case r1 of [] \<Rightarrow> (ip, r1)
        | c # r \<Rightarrow> if c = CHR ''.'' \<and> takeWhile isDigit r \<noteq> []
            then (ip @ [c] @ takeWhile isDigit r, dropWhile isDigit r) else (ip, r1)) = (ip, r1)"
      by (auto split: list.splits)
    then have u: "toUpperCase (dropWhile isSpace r1) \<in> set [''B'', ''KB'', ''MB'', ''GB'']"
      using assms ip(1) unfolding matchSize_def ip_def [symmetric] r1_def [symmetric]
      by (simp add: Let_def split: if_splits)
    have "s = ip @ [] @ takeWhile isSpace r1 @ dropWhile isSpace r1"
      by (simp add: s)
    then show ?thesis
      unfolding size_pattern_def using ip u list_all_takeWhile [of isSpace r1] by blast
  qed
qed

lemma matchSize_complete:
  assumes "size_pattern s"
  shows "matchSize s \<noteq> None"
proof -
  from assms obtain ip fr ws u where
    s: "s = ip @ fr @ ws @ u" and ip: "ip \<noteq> []" "list_all isDigit ip" and
    fr: "fr = [] \<or> (\<exists>fd. fr = CHR ''.'' # fd \<and> fd \<noteq> [] \<and> list_all isDigit fd)" and
    ws: "list_all isSpace ws" and u: "toUpperCase u \<in> set [''B'', ''KB'', ''MB'', ''GB'']"
    unfolding size_pattern_def by blast
  note uf = unit_first [OF u]
  have wsu: "ws @ u \<noteq> []" "\<not> isDigit (hd (ws @ u))" "hd (ws @ u) \<noteq> CHR ''.''"
    using uf ws by (cases ws; auto simp: isSpace_not_isDigit isSpace_def)+
  have dsp: "dropWhile isSpace (ws @ u) = u"
    using dropWhile_all_append [OF ws, of u] uf by simp
  from fr show ?thesis
  proof
    assume "fr = []"
    then have s': "s = ip @ (ws @ u)" by (simp add: s)
    have t: "takeWhile isDigit s = ip" and d: "dropWhile isDigit s = ws @ u"
      unfolding s' using takeWhile_all_append [OF ip(2), of "ws @ u"]
        dropWhile_all_append [OF ip(2), of "ws @ u"] wsu by auto
    have cs: "(case ws @ u of [] \<Rightarrow> (ip, ws @ u)
        | c # r \<Rightarrow> if c = CHR ''.'' \<and> takeWhile isDigit r \<noteq> []
            then (ip @ [c] @ takeWhile isDigit r, dropWhile isDigit r) else (ip, ws @ u))
        = (ip, ws @ u)"
      using wsu by (cases "ws @ u") auto
    show ?thesis unfolding matchSize_def t d Let_def cs using ip(1) dsp u
      by simp
  next
    assume "\<exists>fd. fr = CHR ''.'' # fd \<and> fd \<noteq> [] \<and> list_all isDigit fd"
    then obtain fd where fd: "fr = CHR ''.'' # fd" "fd \<noteq> []" "list_all isDigit fd" by blast
    have s': "s = ip @ (CHR ''.'' # fd @ ws @ u)" by (simp add: s fd)
    have nd: "\<not> isDigit (CHR ''.'')" by (simp add: isDigit_def)
    have t: "takeWhile isDigit s = ip" and d: "dropWhile isDigit s = CHR ''.'' # fd @ ws @ u"
      unfolding s' using takeWhile_all_append [OF ip(2), of "CHR ''.'' # fd @ ws @ u"]
        dropWhile_all_append [OF ip(2), of "CHR ''.'' # fd @ ws @ u"] nd by auto
    have t2: "takeWhile isDigit (fd @ ws @ u) = fd" and d2: "dropWhile isDigit (fd @ ws @ u) = ws @ u"
      using takeWhile_all_append [OF fd(3), of "ws @ u"]
        dropWhile_all_append [OF fd(3), of "ws @ u"] wsu by auto
    show ?thesis unfolding matchSize_def t d using ip(1) fd(2) dsp u
      by (simp add: t2 d2)
  qed
qed

lemma matchSize_iff_pattern: "matchSize s \<noteq> None \<longleftrightarrow> size_pattern s"
proof
  assume "matchSize s \<noteq> None"
  then obtain number unit where "matchSize s = Some (number, unit)" by (cases "matchSize s") auto
  then show "size_pattern s" by (rule matchSize_sound)
next
  assume "size_pattern s"
  then show "matchSize s \<noteq> None" by (rule matchSize_complete)
qed

lemma parseFileSize_no_match: "matchSize s = None \<Longrightarrow> parseFileSize (Some s) = 0"
  by (simp add: parseFileSize_def)

lemma bogus_no_pattern: "\<not> size_pattern ''bogus''"
proof -
  have "matchSize ''bogus'' = None" by (simp add: matchSize_def isDigit_def)
  then show ?thesis using matchSize_iff_pattern [of "''bogus''"] by simp
qed

text \<open>
  Claim C7. \<open>parseFileSize\<close> maps the label \<open>15.2 MB\<close> to 15.2 times 1024 times 1024
  bytes, and maps every string that does not match the size pattern, \<open>bogus\<close> among
  them, and a missing label to 0.
\<close>

theorem parseFileSize_values:
  "parseFileSize (Some ''15.2 MB'') = 15.2 * 1024 * 1024 \<and>
   parseFileSize (Some ''bogus'') = 0 \<and>
   parseFileSize None = 0 \<and>
   (\<forall>s. \<not> size_pattern s \<longrightarrow> parseFileSize (Some s) = 0)"
proof -
  have "parseFileSize (Some ''15.2 MB'') = 15.2 * 1024 * 1024"
    by (simp add: parseFileSize_def matchSize_def isDigit_def isSpace_def toUpperCase_def
        upperChar_def parseFloat_def digitsVal_def digitVal_def)
  moreover have "\<not> size_pattern s \<Longrightarrow> parseFileSize (Some s) = 0" for s
    using matchSize_iff_pattern [of s] parseFileSize_no_match by blast
  moreover have "parseFileSize None = 0" by (simp add: parseFileSize_def)
  ultimately show ?thesis using bogus_no_pattern by blast
qed

theorem parseFileSize_values_witness:
  "\<not> size_pattern ''bogus'' \<and> parseFileSize (Some ''bogus'') = 0 \<and>
   parseFileSize (Some ''15.2 MB'') = 15938355.2"
  using parseFileSize_values bogus_no_pattern by simp

text \<open>
  Claim C9. For an integer byte count from 1 to 1023, \<open>formatFileSize\<close> prints the
  count followed by the unit word \<open>Bytes\<close>; \<open>parseFileSize\<close> does not accept that
  label and gives 0, so the count does not come back.
\<close>

theorem format_parse_below_kilobyte:
  assumes "1 \<le> n" "n \<le> 1023"
  shows "formatFileSize n = natToString n @ '' Bytes'' \<and>
    \<not> size_pattern (formatFileSize n) \<and>
    parseFileSize (Some (formatFileSize n)) = 0 \<and>
    parseFileSize (Some (formatFileSize n)) \<noteq> real n"
proof -
  have f: "formatFileSize n = natToString n @ '' Bytes''"
    by (rule formatFileSize_below_k [OF assms])
  have m: "matchSize (formatFileSize n) = None"
    unfolding f by (rule matchSize_Bytes [OF natToString_digits natToString_nonempty])
  then have "parseFileSize (Some (formatFileSize n)) = 0"
    by (rule parseFileSize_no_match)
  moreover from m have "\<not> size_pattern (formatFileSize n)"
    using matchSize_iff_pattern [of "formatFileSize n"] by simp
  ultimately show ?thesis using f assms by simp
qed

theorem format_parse_below_kilobyte_witness:
  "(1::nat) \<le> 512 \<and> (512::nat) \<le> 1023 \<and> formatFileSize 512 = ''512 Bytes'' \<and>
   parseFileSize (Some (formatFileSize 512)) = 0"
proof -
  have n: "natToString 512 = ''512''" by code_simp
  have a: "(1::nat) \<le> 512" and b: "(512::nat) \<le> 1023" by simp_all
  from format_parse_below_kilobyte [OF a b]
  have "formatFileSize 512 = natToString 512 @ '' Bytes''"
    and "parseFileSize (Some (formatFileSize 512)) = 0" by blast+
  then show ?thesis using a b n by simp
qed

section \<open>Properties: filtering and sorting\<close>

lemma mset_insertStable: "mset (insertStable cmp x ys) = add_mset x (mset ys)"
  by (induction ys) auto

lemma mset_sortJS: "mset (sortJS cmp xs) = mset xs"
  by (induction xs) (auto simp: sortJS_def mset_insertStable)

lemma set_sortJS: "set (sortJS cmp xs) = set xs"
  using mset_sortJS [of cmp xs] by (metis set_mset_mset)

lemma sortJS_Cons: "sortJS cmp (x # xs) = insertStable cmp x (sortJS cmp xs)"
  by (simp add: sortJS_def)

lemma insertStable_front:
  "\<forall>y \<in> set ys. cmp x y \<le> 0 \<Longrightarrow> insertStable cmp x ys = x # ys"
  by (cases ys) auto

lemma sortJS_sorted:
  "sorted_wrt (\<lambda>a b. cmp a b \<le> 0) xs \<Longrightarrow> sortJS cmp xs = xs"
proof (induction xs)
  case Nil
  then show ?case by (simp add: sortJS_def)
next
  case (Cons x xs)
  then show ?case by (simp add: sortJS_Cons insertStable_front)
qed

lemma set_insertStable: "set (insertStable cmp x ys) = insert x (set ys)"
  by (induction ys) auto

lemma sorted_insertStable:
  assumes tot: "\<And>a b. cmp a b \<le> 0 \<or> cmp b a \<le> 0"
    and trans: "\<And>a b c. cmp a b \<le> 0 \<Longrightarrow> cmp b c \<le> 0 \<Longrightarrow> cmp a c \<le> 0"
  shows "sorted_wrt (\<lambda>a b. cmp a b \<le> 0) ys \<Longrightarrow>
    sorted_wrt (\<lambda>a b. cmp a b \<le> 0) (insertStable cmp x ys)"
proof (induction ys)
  case Nil
  then show ?case by simp
next
  case (Cons y ys)
  show ?case
  proof (cases "cmp x y \<le> 0")
    case True
    with Cons.prems show ?thesis using trans by auto
  next
    case False
    then have "cmp y x \<le> 0" using tot [of x y] by simp
    with False Cons show ?thesis by (auto simp: set_insertStable)
  qed
qed

lemma sorted_sortJS:
  assumes tot: "\<And>a b. cmp a b \<le> 0 \<or> cmp b a \<le> 0"
    and trans: "\<And>a b c. cmp a b \<le> 0 \<Longrightarrow> cmp b c \<le> 0 \<Longrightarrow> cmp a c \<le> 0"
  shows "sorted_wrt (\<lambda>a b. cmp a b \<le> 0) (sortJS cmp xs)"
proof (induction xs)
  case Nil
  then show ?case by (simp add: sortJS_def)
next
  case (Cons x xs)
  show ?case unfolding sortJS_Cons
  proof (rule sorted_insertStable)
    show "\<And>a b. cmp a b \<le> 0 \<or> cmp b a \<le> 0" by (rule tot)
    show "\<And>a b c. cmp a b \<le> 0 \<Longrightarrow> cmp b c \<le> 0 \<Longrightarrow> cmp a c \<le> 0"
      by (rule trans)
    show "sorted_wrt (\<lambda>a b. cmp a b \<le> 0) (sortJS cmp xs)" by (rule Cons.IH)
  qed
qed

lemma sortJS_idem:
  assumes tot: "\<And>a b. cmp a b \<le> 0 \<or> cmp b a \<le> 0"
    and trans: "\<And>a b c. cmp a b \<le> 0 \<Longrightarrow> cmp b c \<le> 0 \<Longrightarrow> cmp a c \<le> 0"
  shows "sortJS cmp (sortJS cmp xs) = sortJS cmp xs"
proof (rule sortJS_sorted, rule sorted_sortJS)
  show "\<And>a b. cmp a b \<le> 0 \<or> cmp b a \<le> 0" by (rule tot)
  show "\<And>a b c. cmp a b \<le> 0 \<Longrightarrow> cmp b c \<le> 0 \<Longrightarrow> cmp a c \<le> 0"
    by (rule trans)
qed

lemma sortJS_key_idem:
  fixes key :: "'a \<Rightarrow> real"
  shows "sortJS (\<lambda>a b. key a - key b) (sortJS (\<lambda>a b. key a - key b) xs)
    = sortJS (\<lambda>a b. key a - key b) xs"
  by (rule sortJS_idem) auto

lemma sortJS_key_desc_idem:
  fixes key :: "'a \<Rightarrow> real"
  shows "sortJS (\<lambda>a b. key b - key a) (sortJS (\<lambda>a b. key b - key a) xs)
    = sortJS (\<lambda>a b. key b - key a) xs"
  by (rule sortJS_idem) auto

lemma localeCompare_le: "localeCompare collate a b \<le> 0 \<longleftrightarrow> collate a \<le> collate b"
  by (auto simp: localeCompare_def)

lemma sortJS_locale_idem:
  "sortJS (\<lambda>a b. localeCompare collate (f a) (f b))
     (sortJS (\<lambda>a b. localeCompare collate (f a) (f b)) xs)
   = sortJS (\<lambda>a b. localeCompare collate (f a) (f b)) xs"
  by (rule sortJS_idem) (auto simp: localeCompare_le)

lemma sortJS_locale_desc_idem:
  "sortJS (\<lambda>a b. localeCompare collate (f b) (f a))
     (sortJS (\<lambda>a b. localeCompare collate (f b) (f a)) xs)
   = sortJS (\<lambda>a b. localeCompare collate (f b) (f a)) xs"
  by (rule sortJS_idem) (auto simp: localeCompare_le)

lemma applySorting_idem:
  "applySorting collate (applySorting collate xs k) k = applySorting collate xs k"
  unfolding applySorting_def Let_def
  by (simp add: sortJS_key_idem sortJS_key_desc_idem sortJS_locale_idem
      sortJS_locale_desc_idem)

lemma mset_applySorting: "mset (applySorting collate xs k) = mset xs"
  by (simp add: applySorting_def mset_sortJS)

lemma set_applySorting: "set (applySorting collate xs k) = set xs"
  using mset_applySorting [of collate xs k] by (metis set_mset_mset)

lemma hasTag_all:
  "list_all (hasTag item) ts \<longleftrightarrow> (\<forall>tag \<in> set ts. \<exists>l. tags item = Some l \<and> tag \<in> set l)"
  by (auto simp: list_all_iff hasTag_def split: option.splits)

lemma applyFilters_eq:
  "applyFilters collate L S = applySorting collate (filter (matchesSelection S) L) (f_sortBy S)"
proof -
  have "filter (matchesSelection S) L =
    filter (\<lambda>item. list_all (hasTag item) (f_tags S))
      (filter (\<lambda>item. f_subject S = ''all'' \<or> subject item = f_subject S)
        (filter (\<lambda>item. f_year S = ''all'' \<or> year item = f_year S)
          (filter (\<lambda>item. f_grade S = ''all'' \<or> grade item = f_grade S)
            (filter (\<lambda>item. f_category S = ''all'' \<or> category item = f_category S) L))))"
    by (auto simp: matchesSelection_def hasTag_all intro!: filter_cong)
  moreover have "f_tags S = [] \<Longrightarrow> (\<lambda>item. list_all (hasTag item) (f_tags S)) = (\<lambda>item. True)"
    by simp
  ultimately show ?thesis
    unfolding applyFilters_def Let_def by (cases "f_tags S = []") auto
qed

lemma filter_id: "\<forall>x \<in> set xs. P x \<Longrightarrow> filter P xs = xs"
  by (induction xs) auto

lemma applyFilters_idem:
  "applyFilters collate (applyFilters collate L S) S = applyFilters collate L S"
proof -
  let ?r = "applySorting collate (filter (matchesSelection S) L) (f_sortBy S)"
  have "filter (matchesSelection S) ?r = ?r"
    by (rule filter_id) (simp add: set_applySorting)
  then show ?thesis by (simp add: applyFilters_eq applySorting_idem)
qed

text \<open>
  Claim C1. For every list of resources and every selection, \<open>applyFilters\<close> returns
  exactly the items of the list that match every axis of the selection that is not
  \<open>all\<close> and carry every required tag, each as often as the list has it, and
  applying it again with the same selection to its own result returns that result, in
  the same order.
\<close>

theorem applyFilters_exact_idempotent:
  "mset (applyFilters collate L S) = mset (filter (matchesSelection S) L) \<and>
   applyFilters collate (applyFilters collate L S) S = applyFilters collate L S"
proof
  show "mset (applyFilters collate L S) = mset (filter (matchesSelection S) L)"
    by (simp add: applyFilters_eq mset_applySorting)
  show "applyFilters collate (applyFilters collate L S) S = applyFilters collate L S"
    by (rule applyFilters_idem)
qed

theorem applyFilters_exact_idempotent_witness:
  "matchesSelection (defaultFilters\<lparr>f_grade := ''10'', f_tags := [''EUEE'']\<rparr>)
     (exampleResource ''a'' ''10'' 5) \<and>
   \<not> matchesSelection (defaultFilters\<lparr>f_grade := ''10'', f_tags := [''EUEE'']\<rparr>)
     (exampleResource ''b'' ''11'' 9) \<and>
   applyFilters length
     [exampleResource ''a'' ''10'' 5, exampleResource ''b'' ''11'' 9,
      exampleResource ''c'' ''10'' 7]
     (defaultFilters\<lparr>f_grade := ''10'', f_tags := [''EUEE'']\<rparr>) =
     [exampleResource ''c'' ''10'' 7, exampleResource ''a'' ''10'' 5] \<and>
   applyFilters length
     (applyFilters length
        [exampleResource ''a'' ''10'' 5, exampleResource ''b'' ''11'' 9,
         exampleResource ''c'' ''10'' 7]
        (defaultFilters\<lparr>f_grade := ''10'', f_tags := [''EUEE'']\<rparr>))
     (defaultFilters\<lparr>f_grade := ''10'', f_tags := [''EUEE'']\<rparr>) =
     [exampleResource ''c'' ''10'' 7, exampleResource ''a'' ''10'' 5]"
proof -
  let ?S = "defaultFilters\<lparr>f_grade := ''10'', f_tags := [''EUEE'']\<rparr>"
  let ?L = "[exampleResource ''a'' ''10'' 5, exampleResource ''b'' ''11'' 9,
      exampleResource ''c'' ''10'' 7]"
  have r: "applyFilters length ?L ?S =
      [exampleResource ''c'' ''10'' 7, exampleResource ''a'' ''10'' 5]"
    by (simp add: applyFilters_def applySorting_def sortJS_def defaultFilters_def
        exampleResource_def hasTag_def downloadCount_def)
  have m: "matchesSelection ?S (exampleResource ''a'' ''10'' 5)"
    "\<not> matchesSelection ?S (exampleResource ''b'' ''11'' 9)"
    by (simp_all add: matchesSelection_def defaultFilters_def exampleResource_def)
  from applyFilters_exact_idempotent [of length ?L ?S]
  have "applyFilters length (applyFilters length ?L ?S) ?S = applyFilters length ?L ?S"
    by blast
  with r m show ?thesis by simp
qed

section \<open>Properties: the selection and the URL\<close>

text \<open>
  The names \<open>updateURL\<close> writes are property keys of the selection, and the
  default selection writes none.
\<close>

lemma keys_paramsSet: "fst ` set (paramsSet name v ps) \<subseteq> insert name (fst ` set ps)"
  by (induction name v ps rule: paramsSet.induct) auto

lemma keys_urlEntry: "fst ` set (urlEntry ps (k, v)) \<subseteq> insert k (fst ` set ps)"
  using keys_paramsSet [of k _ ps]
  by (auto simp: urlEntry_def split: filterValue.splits if_splits)

lemma urlParams_default: "urlParams defaultFilters = []"
  by (simp add: urlParams_def entries_def urlEntry_def defaultFilters_def)

lemma urlParams_names:
  "fst ` set (urlParams f) \<subseteq>
     set [''category'', ''grade'', ''year'', ''subject'', ''sortBy'', ''tags'']"
proof -
  have step: "fst ` set ps \<subseteq> K \<Longrightarrow> fst ` set (urlEntry ps (k, v)) \<subseteq> insert k K" for ps k v K
    using keys_urlEntry [of ps k v] by blast
  have "fst ` set ([] :: urlSearchParams) \<subseteq> {}" by simp
  note step [OF this, of "''category''" "Str (f_category f)"]
  note step [OF this, of "''grade''" "Str (f_grade f)"]
  note step [OF this, of "''year''" "Str (f_year f)"]
  note step [OF this, of "''subject''" "Str (f_subject f)"]
  note step [OF this, of "''sortBy''" "Str (f_sortBy f)"]
  note step [OF this, of "''tags''" "Arr (f_tags f)"]
  then show ?thesis unfolding urlParams_def entries_def by (simp add: insert_commute)
qed

lemma dropWhile_path:
  "CHR ''?'' \<notin> set p \<Longrightarrow> dropWhile (\<lambda>c. c \<noteq> CHR ''?'') (p @ CHR ''?'' # q) = CHR ''?'' # q"
  by (induction p) auto

lemma urlParams_grade10:
  "urlParams (defaultFilters\<lparr>f_grade := ''10''\<rparr>) = [(''grade'', ''10'')]"
  by (simp add: urlParams_def entries_def urlEntry_def defaultFilters_def)

lemma paramsToString_grade10: "paramsToString [(''grade'', ''10'')] = ''grade=10''"
  by (simp add: paramsToString_def formEncode_def utf8Bytes_def encodeByte_def)

lemma paramsParse_grade10: "paramsParse ''?grade=10'' = [(''grade'', ''10'')]"
  by (simp add: paramsParse_def parsePair_def formDecode_def hexVal_def)

lemma setFilter_grade10_search:
  assumes "activeFilters fm = defaultFilters" "CHR ''?'' \<notin> set (locationPathname fm)"
  shows "locationSearch (snd (setFilter Grade ''10'' fm)) = ''?grade=10''"
  using assms dropWhile_path [of "locationPathname fm" "''grade=10''"]
  by (simp add: setFilter_def assign_def updateURL_def notifyListeners_def replaceState_def
      urlParams_grade10 paramsToString_grade10 Let_def)

lemma initFromURL_grade10:
  "locationSearch fm = ''?grade=10'' \<Longrightarrow>
   fst (initFromURL fm) = defaultFilters\<lparr>f_grade := ''10''\<rparr>"
  by (simp add: initFromURL_def paramsParse_grade10 getOr_def paramsGet_def Let_def
      updateURL_def replaceState_def defaultFilters_def)

text \<open>
  Claim C5. From the default selection, \<open>setFilter("grade", "10")\<close> sets the grade
  and writes the query string \<open>?grade=10\<close>, and \<open>initFromURL\<close> on any manager whose
  window holds that query string, whatever selection the manager has, gives the
  selection with grade 10 and every other axis at its default: category, year and
  subject \<open>all\<close>, sort \<open>popular\<close>, no tags.
\<close>

theorem setFilter_grade_roundtrip:
  assumes "activeFilters fm = defaultFilters" "CHR ''?'' \<notin> set (locationPathname fm)"
  shows "locationSearch (snd (setFilter Grade ''10'' fm)) = ''?grade=10'' \<and>
    (\<forall>fm'. locationSearch fm' = locationSearch (snd (setFilter Grade ''10'' fm)) \<longrightarrow>
       fst (initFromURL fm') =
         \<lparr>f_category = ''all'', f_grade = ''10'', f_year = ''all'', f_subject = ''all'',
          f_sortBy = ''popular'', f_tags = []\<rparr> \<and>
       activeFilters (snd (initFromURL fm')) =
         \<lparr>f_category = ''all'', f_grade = ''10'', f_year = ''all'', f_subject = ''all'',
          f_sortBy = ''popular'', f_tags = []\<rparr>) \<and>
    fst (initFromURL (snd (setFilter Grade ''10'' fm))) =
      \<lparr>f_category = ''all'', f_grade = ''10'', f_year = ''all'', f_subject = ''all'',
       f_sortBy = ''popular'', f_tags = []\<rparr>"
proof -
  note w = setFilter_grade10_search [OF assms]
  have r: "fst (initFromURL fm') =
         \<lparr>f_category = ''all'', f_grade = ''10'', f_year = ''all'', f_subject = ''all'',
          f_sortBy = ''popular'', f_tags = []\<rparr>"
    if "locationSearch fm' = ''?grade=10''" for fm'
    using initFromURL_grade10 [OF that] by (simp add: defaultFilters_def)
  have "activeFilters (snd (initFromURL fm')) = fst (initFromURL fm')" for fm'
    by (simp add: initFromURL_def Let_def)
  with w r show ?thesis by simp
qed

theorem setFilter_grade_roundtrip_witness:
  "activeFilters (newFilterManager ''/index.html'' []) = defaultFilters \<and>
   CHR ''?'' \<notin> set (locationPathname (newFilterManager ''/index.html'' [])) \<and>
   locationSearch (snd (setFilter Grade ''10'' (newFilterManager ''/index.html'' []))) =
     ''?grade=10'' \<and>
   locationSearch ((newFilterManager ''/index.html'' ''?grade=10'')
       \<lparr>activeFilters := defaultFilters\<lparr>f_category := ''notes'', f_grade := ''9''\<rparr>\<rparr>) =
     locationSearch (snd (setFilter Grade ''10'' (newFilterManager ''/index.html'' []))) \<and>
   fst (initFromURL ((newFilterManager ''/index.html'' ''?grade=10'')
       \<lparr>activeFilters := defaultFilters\<lparr>f_category := ''notes'', f_grade := ''9''\<rparr>\<rparr>)) =
     \<lparr>f_category = ''all'', f_grade = ''10'', f_year = ''all'', f_subject = ''all'',
      f_sortBy = ''popular'', f_tags = []\<rparr>"
proof -
  let ?fm = "newFilterManager ''/index.html'' []"
  let ?fm' = "(newFilterManager ''/index.html'' ''?grade=10'')
       \<lparr>activeFilters := defaultFilters\<lparr>f_category := ''notes'', f_grade := ''9''\<rparr>\<rparr>"
  have a: "activeFilters ?fm = defaultFilters"
    by (simp add: newFilterManager_def)
  have b: "CHR ''?'' \<notin> set (locationPathname ?fm)"
    by (simp add: newFilterManager_def)
  note t = setFilter_grade_roundtrip [OF a b]
  from t have c: "locationSearch (snd (setFilter Grade ''10'' ?fm)) = ''?grade=10''" by blast
  have d: "locationSearch ?fm' = locationSearch (snd (setFilter Grade ''10'' ?fm))"
    unfolding c by (simp add: newFilterManager_def)
  from t d have "fst (initFromURL ?fm') =
     \<lparr>f_category = ''all'', f_grade = ''10'', f_year = ''all'', f_subject = ''all'',
      f_sortBy = ''popular'', f_tags = []\<rparr>" by blast
  with a b c d show ?thesis by blast
qed

lemma urlParams_newest:
  "urlParams (defaultFilters\<lparr>f_sortBy := ''newest''\<rparr>) = [(''sortBy'', ''newest'')]"
  by (simp add: urlParams_def entries_def urlEntry_def defaultFilters_def)

text \<open>
  Claim C6, at the input where the code leaves it: a sort key that is not the default
  is written to the query string under the name \<open>sortBy\<close>, not \<open>sort\<close>, and
  \<open>initFromURL\<close>, which reads \<open>sort\<close>, gives the default sort key back.
\<close>

theorem sort_key_written_as_sortBy:
  "locationSearch (snd (setFilter SortBy ''newest'' (newFilterManager ''/index.html'' ''''))) =
     ''?sortBy=newest'' \<and>
   f_sortBy (fst (initFromURL (snd (setFilter SortBy ''newest''
     (newFilterManager ''/index.html'' ''''))))) = ''popular''"
  by (simp add: setFilter_def assign_def updateURL_def notifyListeners_def replaceState_def
      urlParams_newest paramsToString_def formEncode_def utf8Bytes_def encodeByte_def Let_def
      newFilterManager_def initFromURL_def paramsParse_def parsePair_def formDecode_def
      hexVal_def getOr_def paramsGet_def)

section \<open>Properties: the store wrapper\<close>

lemma getItem_setItem:
  "getItem k (setItem k' v ls) = (if k = k' then Some v else getItem k ls)"
  by (simp add: getItem_def setItem_def update_conv')

lemma getItem_removeItem:
  "getItem k (removeItem k' ls) = (if k = k' then None else getItem k ls)"
  by (simp add: getItem_def removeItem_def delete_conv')

text \<open>An entry the cleanup may remove: one that has expired or does not parse.\<close>

lemma clearExpiredFrom_getItem:
  "getItem k (snd (clearExpiredFrom now i c ls)) = getItem k ls \<or>
   getItem k (snd (clearExpiredFrom now i c ls)) = None \<and>
     (getItem k ls = Some Unparseable \<or>
      (\<exists>d. getItem k ls = Some (Envelope d) \<and> isExpired now d))"
proof (induction now i c ls rule: clearExpiredFrom.induct)
  case (1 now i cleared ls)
  show ?case
  proof (cases "i < length ls")
    case False
    then show ?thesis by (subst (1 2) clearExpiredFrom.simps) simp
  next
    case True
    define key where "key = fst (ls ! i)"
    have in_ls: "getItem key ls \<noteq> None"
      using True unfolding key_def getItem_def
      by (metis (no_types, lifting) map_of_eq_None_iff nth_mem image_eqI)
    show ?thesis
    proof (cases "startsWith key storagePrefix")
      case False
      with True 1(5) [OF True key_def False] show ?thesis
        by (subst (1 2) clearExpiredFrom.simps) (simp add: key_def)
    next
      case sw: True
      show ?thesis
      proof (cases "getItem key ls")
        case None
        with in_ls show ?thesis by simp
      next
        case (Some item)
        show ?thesis
        proof (cases item)
          case Unparseable
          have step: "clearExpiredFrom now i cleared ls =
              clearExpiredFrom now (i + 1) (cleared + 1) (removeItem key ls)"
            using True sw Some Unparseable
            by (subst clearExpiredFrom.simps) (simp add: key_def)
          from 1(4) [OF True key_def sw Some Unparseable]
          have IH: "getItem k (snd (clearExpiredFrom now (i + 1) (cleared + 1) (removeItem key ls)))
              = getItem k (removeItem key ls) \<or>
            getItem k (snd (clearExpiredFrom now (i + 1) (cleared + 1) (removeItem key ls))) = None \<and>
              (getItem k (removeItem key ls) = Some Unparseable \<or>
               (\<exists>d. getItem k (removeItem key ls) = Some (Envelope d) \<and> isExpired now d))"
            by simp
          show ?thesis unfolding step using IH Some Unparseable
            by (auto simp: getItem_removeItem split: if_splits)
        next
          case (Envelope data)
          show ?thesis
          proof (cases "isExpired now data")
            case ex: True
            have step: "clearExpiredFrom now i cleared ls =
                clearExpiredFrom now (i + 1) (cleared + 1) (removeItem key ls)"
              using True sw Some Envelope ex
              by (subst clearExpiredFrom.simps) (simp add: key_def)
            from 1(2) [OF True key_def sw Some Envelope ex]
            have IH: "getItem k (snd (clearExpiredFrom now (i + 1) (cleared + 1) (removeItem key ls)))
                = getItem k (removeItem key ls) \<or>
              getItem k (snd (clearExpiredFrom now (i + 1) (cleared + 1) (removeItem key ls))) = None \<and>
                (getItem k (removeItem key ls) = Some Unparseable \<or>
                 (\<exists>d. getItem k (removeItem key ls) = Some (Envelope d) \<and> isExpired now d))"
              by (simp add: key_def)
            show ?thesis unfolding step using IH Some Envelope ex
              by (auto simp: getItem_removeItem split: if_splits)
          next
            case nex: False
            have step: "clearExpiredFrom now i cleared ls =
                clearExpiredFrom now (i + 1) cleared ls"
              using True sw Some Envelope nex
              by (subst clearExpiredFrom.simps) (simp add: key_def)
            from 1(3) [OF True key_def sw Some Envelope nex]
            show ?thesis unfolding step by simp
          qed
        qed
      qed
    qed
  qed
qed


lemma clearExpired_getItem:
  "getItem k (snd (clearExpired now ls)) = getItem k ls \<or>
   getItem k (snd (clearExpired now ls)) = None \<and>
     (getItem k ls = Some Unparseable \<or>
      (\<exists>d. getItem k ls = Some (Envelope d) \<and> isExpired now d))"
  unfolding clearExpired_def by (rule clearExpiredFrom_getItem)

lemma getKey_value:
  "fst (getKey now key dflt ls) =
     (case getItem (storagePrefix @ key) ls of
        Some (Envelope d) \<Rightarrow> if isExpired now d then dflt else val d
      | _ \<Rightarrow> dflt)"
  by (simp add: getKey_def split: option.splits stored.splits)

lemma getKey_store_getItem:
  "getItem (storagePrefix @ key) (snd (getKey now key dflt ls)) =
     (case getItem (storagePrefix @ key) ls of
        Some (Envelope d) \<Rightarrow> if isExpired now d then None else Some (Envelope d)
      | other \<Rightarrow> other)"
  by (simp add: getKey_def removeKey_def getItem_removeItem split: option.splits stored.splits)

lemma getKey_again:
  "fst (getKey now key dflt (snd (getKey now key dflt ls))) = fst (getKey now key dflt ls)"
  by (simp add: getKey_value getKey_store_getItem split: option.splits stored.splits)

lemma getKey_again_store:
  "snd (getKey now key dflt (snd (getKey now key dflt ls))) = snd (getKey now key dflt ls)"
proof -
  have unfold: "getKey now key dflt X =
      (case getItem (storagePrefix @ key) X of
         None \<Rightarrow> (dflt, X)
       | Some Unparseable \<Rightarrow> (dflt, X)
       | Some (Envelope data) \<Rightarrow>
          if isExpired now data then (dflt, snd (removeKey key X)) else (val data, X))" for X
    by (simp add: getKey_def)
  show ?thesis
    unfolding unfold [of "snd (getKey now key dflt ls)"] getKey_store_getItem
    by (simp split: option.splits stored.splits)
qed

lemma getKey_clearExpired:
  "fst (getKey now key dflt (snd (clearExpired now ls))) = fst (getKey now key dflt ls)"
  using clearExpired_getItem [of "storagePrefix @ key" now ls]
  by (auto simp: getKey_value split: option.splits stored.splits)

lemma getKey_fresh:
  "getItem (storagePrefix @ key) ls = Some (Envelope d) \<Longrightarrow> expires d = None \<Longrightarrow>
   getKey now key dflt ls = (val d, ls)"
  by (simp add: getKey_def isExpired_def)

text \<open>What \<open>set\<close> leaves under its key.\<close>

lemma setKey_cases:
  "setKey first again now key v noOptions ls = (True, ls') \<Longrightarrow>
   getItem (storagePrefix @ key) ls' =
     Some (Envelope \<lparr>val = v, timestamp = now, expires = None, version = ''1.0''\<rparr>)"
  by (auto simp: setKey_def noOptions_def getItem_setItem Let_def
      split: writeResult.splits)

lemma setKey_failed:
  "setKey first again now key v options ls = (False, ls') \<Longrightarrow>
   ls' = ls \<or> ls' = snd (clearExpired now ls)"
  by (auto simp: setKey_def Let_def split: writeResult.splits)

lemma setKey_Stores:
  "setKey Stores again now key v noOptions ls =
     (True, setItem (storagePrefix @ key)
        (Envelope \<lparr>val = v, timestamp = now, expires = None, version = ''1.0''\<rparr>) ls)"
  by (simp add: setKey_def noOptions_def)

lemma storedList_value:
  "storedList key ls = [] \<or> (\<exists>d. getItem (storagePrefix @ key) ls = Some (Envelope d) \<and>
     storedList key ls = val d)"
  by (auto simp: storedList_def split: option.splits stored.splits)

lemma getKey_storedList:
  "fst (getKey now key [] ls) = storedList key ls \<or> fst (getKey now key [] ls) = []"
  by (auto simp: getKey_value storedList_def split: option.splits stored.splits)

lemma storedList_after_getKey:
  "storedList key (snd (getKey now key [] ls)) = fst (getKey now key [] ls)"
  by (simp add: storedList_def getKey_store_getItem getKey_value
      split: option.splits stored.splits)

lemma storedList_clearExpired:
  "storedList key (snd (clearExpired now ls)) = storedList key ls \<or>
   storedList key (snd (clearExpired now ls)) = []"
  using clearExpired_getItem [of "storagePrefix @ key" now ls]
  by (auto simp: storedList_def split: option.splits stored.splits)

text \<open>After \<open>set\<close>, the key holds the new list, the old one, or nothing.\<close>

lemma storedList_setKey:
  "storedList key (snd (setKey first again now key v noOptions ls)) \<in>
     {v, storedList key ls, []}"
proof (cases "fst (setKey first again now key v noOptions ls)")
  case True
  then have "setKey first again now key v noOptions ls =
      (True, snd (setKey first again now key v noOptions ls))"
    by (metis prod.collapse)
  from setKey_cases [OF this] show ?thesis by (simp add: storedList_def)
next
  case False
  then have "setKey first again now key v noOptions ls =
      (False, snd (setKey first again now key v noOptions ls))"
    by (metis prod.collapse)
  from setKey_failed [OF this] storedList_clearExpired [of key now ls]
  show ?thesis by auto
qed

section \<open>Properties: favourites\<close>

lemma setKey_ok:
  "fst (setKey first again now key v options ls) \<longleftrightarrow>
     first = Stores \<or> first = QuotaExceeded \<and> again = Stores"
  by (auto simp: setKey_def Let_def split: writeResult.splits)

lemma setKey_view:
  "fst (getKey now key [] (snd (setKey first again now key v noOptions ls))) =
     (if fst (setKey first again now key v noOptions ls) then v
      else fst (getKey now key [] ls))"
proof (cases "fst (setKey first again now key v noOptions ls)")
  case True
  then have "setKey first again now key v noOptions ls =
      (True, snd (setKey first again now key v noOptions ls))"
    by (metis prod.collapse)
  from getKey_fresh [OF setKey_cases [OF this]] True show ?thesis by simp
next
  case False
  then have "setKey first again now key v noOptions ls =
      (False, snd (setKey first again now key v noOptions ls))"
    by (metis prod.collapse)
  from setKey_failed [OF this] False show ?thesis
    by (auto simp: getKey_clearExpired)
qed

lemma addFavorite_view:
  "fst (getFavorites now (snd (addFavorite first again now x ls))) =
     (if IdV x \<in> set (fst (getFavorites now ls)) \<or>
         \<not> (first = Stores \<or> first = QuotaExceeded \<and> again = Stores)
      then fst (getFavorites now ls)
      else fst (getFavorites now ls) @ [IdV x])"
  unfolding addFavorite_def getFavorites_def
  by (simp add: case_prod_beta setKey_view setKey_ok getKey_again)

lemma removeFavorite_view:
  "fst (getFavorites now (snd (removeFavorite first again now x ls))) =
     (if IdV x \<in> set (fst (getFavorites now ls)) \<and>
         (first = Stores \<or> first = QuotaExceeded \<and> again = Stores)
      then remove1 (IdV x) (fst (getFavorites now ls))
      else fst (getFavorites now ls))"
  unfolding removeFavorite_def getFavorites_def
  by (simp add: case_prod_beta setKey_view setKey_ok getKey_again)

lemma addFavorite_idem:
  "fst (getFavorites now (snd (addFavorite first again now x
      (snd (addFavorite first again now x ls))))) =
   fst (getFavorites now (snd (addFavorite first again now x ls)))"
  by (simp add: addFavorite_view)

lemma distinct_view:
  "distinct (storedList key ls) \<Longrightarrow> distinct (fst (getKey now key [] ls))"
  using getKey_storedList [of now key ls] by auto

lemma removeFavorite_idem:
  assumes "distinct (storedList ''favorites'' ls)"
  shows "fst (getFavorites now (snd (removeFavorite first again now x
      (snd (removeFavorite first again now x ls))))) =
   fst (getFavorites now (snd (removeFavorite first again now x ls)))"
proof -
  have "distinct (fst (getFavorites now ls))"
    unfolding getFavorites_def by (rule distinct_view [OF assms])
  then show ?thesis by (auto simp: removeFavorite_view)
qed

lemma addFavorite_present:
  assumes "IdV x \<in> set (fst (getFavorites now ls))"
  shows "addFavorite first again now x ls = (True, ls)"
proof -
  have "snd (getKey now ''favorites'' [] ls) = ls"
    using assms unfolding getFavorites_def getKey_def
    by (auto split: option.splits stored.splits if_splits)
  with assms show ?thesis by (simp add: addFavorite_def getFavorites_def case_prod_beta)
qed

lemma removeFavorite_absent:
  "IdV x \<notin> set (fst (getFavorites now ls)) \<Longrightarrow>
   removeFavorite first again now x ls = (True, snd (getFavorites now ls))"
  by (simp add: removeFavorite_def case_prod_beta)

lemma addFavorite_distinct:
  assumes "distinct (storedList ''favorites'' ls)"
  shows "distinct (storedList ''favorites'' (snd (addFavorite first again now x ls)))"
proof -
  let ?favs = "fst (getFavorites now ls)" and ?ls1 = "snd (getFavorites now ls)"
  have d: "distinct ?favs" unfolding getFavorites_def by (rule distinct_view [OF assms])
  have s1: "storedList ''favorites'' ?ls1 = ?favs"
    unfolding getFavorites_def by (rule storedList_after_getKey)
  show ?thesis
  proof (cases "IdV x \<in> set ?favs")
    case True
    then show ?thesis using d s1 by (simp add: addFavorite_def case_prod_beta)
  next
    case False
    have "storedList ''favorites''
        (snd (setKey first again now ''favorites'' (?favs @ [IdV x]) noOptions ?ls1)) \<in>
        {?favs @ [IdV x], storedList ''favorites'' ?ls1, []}"
      by (rule storedList_setKey)
    with False d s1 show ?thesis by (auto simp: addFavorite_def case_prod_beta)
  qed
qed

lemma removeFavorite_distinct:
  assumes "distinct (storedList ''favorites'' ls)"
  shows "distinct (storedList ''favorites'' (snd (removeFavorite first again now x ls)))"
proof -
  let ?favs = "fst (getFavorites now ls)" and ?ls1 = "snd (getFavorites now ls)"
  have d: "distinct ?favs" unfolding getFavorites_def by (rule distinct_view [OF assms])
  have s1: "storedList ''favorites'' ?ls1 = ?favs"
    unfolding getFavorites_def by (rule storedList_after_getKey)
  show ?thesis
  proof (cases "IdV x \<in> set ?favs")
    case False
    then show ?thesis using d s1 by (simp add: removeFavorite_def case_prod_beta)
  next
    case True
    have "storedList ''favorites''
        (snd (setKey first again now ''favorites'' (remove1 (IdV x) ?favs) noOptions ?ls1)) \<in>
        {remove1 (IdV x) ?favs, storedList ''favorites'' ?ls1, []}"
      by (rule storedList_setKey)
    with True d s1 show ?thesis by (auto simp: removeFavorite_def case_prod_beta)
  qed
qed

lemma addFavorite_result:
  "fst (addFavorite first again now x ls) \<longleftrightarrow>
     IdV x \<in> set (fst (getFavorites now ls)) \<or>
     first = Stores \<or> first = QuotaExceeded \<and> again = Stores"
  by (simp add: addFavorite_def case_prod_beta setKey_ok)

lemma removeFavorite_result:
  "fst (removeFavorite first again now x ls) \<longleftrightarrow>
     IdV x \<notin> set (fst (getFavorites now ls)) \<or>
     first = Stores \<or> first = QuotaExceeded \<and> again = Stores"
  by (simp add: removeFavorite_def case_prod_beta setKey_ok)

lemma addFavorite_repeat:
  assumes "fst (addFavorite first again now x ls)"
  shows "addFavorite first' again' now x (snd (addFavorite first again now x ls)) =
    (True, snd (addFavorite first again now x ls))"
proof -
  have "IdV x \<in> set (fst (getFavorites now (snd (addFavorite first again now x ls))))"
    using assms by (auto simp: addFavorite_view addFavorite_result)
  then show ?thesis by (rule addFavorite_present)
qed

lemma getFavorites_after_removeFavorite:
  assumes "fst (removeFavorite first again now x ls)"
  shows "snd (getFavorites now (snd (removeFavorite first again now x ls))) =
    snd (removeFavorite first again now x ls)"
proof (cases "IdV x \<in> set (fst (getFavorites now ls))")
  case False
  then show ?thesis
    by (simp add: removeFavorite_absent) (simp add: getFavorites_def getKey_again_store)
next
  case True
  let ?v = "remove1 (IdV x) (fst (getFavorites now ls))"
  let ?ls1 = "snd (getFavorites now ls)"
  have eq: "removeFavorite first again now x ls =
      setKey first again now ''favorites'' ?v noOptions ?ls1"
    using True by (simp add: removeFavorite_def case_prod_beta)
  with assms have "setKey first again now ''favorites'' ?v noOptions ?ls1 =
      (True, snd (removeFavorite first again now x ls))"
    by (metis prod.collapse)
  from getKey_fresh [OF setKey_cases [OF this]] show ?thesis
    by (simp add: getFavorites_def)
qed

lemma removeFavorite_repeat:
  assumes "distinct (storedList ''favorites'' ls)"
    and "fst (removeFavorite first again now x ls)"
  shows "removeFavorite first' again' now x (snd (removeFavorite first again now x ls)) =
    (True, snd (removeFavorite first again now x ls))"
proof -
  have "distinct (fst (getFavorites now ls))"
    unfolding getFavorites_def by (rule distinct_view [OF assms(1)])
  then have "IdV x \<notin> set (fst (getFavorites now (snd (removeFavorite first again now x ls))))"
    using assms(2) by (auto simp: removeFavorite_view removeFavorite_result)
  then show ?thesis
    using getFavorites_after_removeFavorite [OF assms(2)]
    by (simp add: removeFavorite_absent)
qed

lemma addFavorite_failed:
  "\<not> fst (addFavorite first again now x ls) \<Longrightarrow>
   fst (getFavorites now (snd (addFavorite first again now x ls))) = fst (getFavorites now ls)"
  by (auto simp: addFavorite_view addFavorite_result)

lemma removeFavorite_failed:
  "\<not> fst (removeFavorite first again now x ls) \<Longrightarrow>
   fst (getFavorites now (snd (removeFavorite first again now x ls))) =
     fst (getFavorites now ls)"
  by (auto simp: removeFavorite_view removeFavorite_result)

text \<open>
  Claim C10. The favourites list of the store never holds an identifier twice: a list
  without duplicates stays so under \<open>addFavorite\<close> and \<open>removeFavorite\<close>, whatever
  the store does with the write. \<open>addFavorite\<close> returns true without writing when
  the identifier is there and appends it when it is not; \<open>removeFavorite\<close> returns
  true without writing when the identifier is not there. Both are idempotent: after a
  call that returned true, the same call again returns true and leaves the store as it
  is, a call that returned false has left the favourites as they were, and two calls
  that the store answers alike leave the favourites one call leaves.
\<close>

theorem favorites_no_duplicates:
  "(distinct (storedList ''favorites'' ls) \<longrightarrow>
      distinct (storedList ''favorites'' (snd (addFavorite first again now x ls))) \<and>
      distinct (storedList ''favorites'' (snd (removeFavorite first again now x ls)))) \<and>
   (IdV x \<in> set (fst (getFavorites now ls)) \<longrightarrow>
      addFavorite first again now x ls = (True, ls)) \<and>
   (IdV x \<notin> set (fst (getFavorites now ls)) \<longrightarrow>
      fst (getFavorites now (snd (addFavorite Stores again now x ls))) =
        fst (getFavorites now ls) @ [IdV x]) \<and>
   (IdV x \<notin> set (fst (getFavorites now ls)) \<longrightarrow>
      removeFavorite first again now x ls = (True, snd (getFavorites now ls))) \<and>
   (fst (addFavorite first again now x ls) \<longrightarrow>
      addFavorite first' again' now x (snd (addFavorite first again now x ls)) =
        (True, snd (addFavorite first again now x ls))) \<and>
   (\<not> fst (addFavorite first again now x ls) \<longrightarrow>
      fst (getFavorites now (snd (addFavorite first again now x ls))) =
        fst (getFavorites now ls)) \<and>
   (distinct (storedList ''favorites'' ls) \<and> fst (removeFavorite first again now x ls) \<longrightarrow>
      removeFavorite first' again' now x (snd (removeFavorite first again now x ls)) =
        (True, snd (removeFavorite first again now x ls))) \<and>
   (\<not> fst (removeFavorite first again now x ls) \<longrightarrow>
      fst (getFavorites now (snd (removeFavorite first again now x ls))) =
        fst (getFavorites now ls)) \<and>
   fst (getFavorites now (snd (addFavorite first again now x
      (snd (addFavorite first again now x ls))))) =
     fst (getFavorites now (snd (addFavorite first again now x ls))) \<and>
   (distinct (storedList ''favorites'' ls) \<longrightarrow>
      fst (getFavorites now (snd (removeFavorite first again now x
        (snd (removeFavorite first again now x ls))))) =
      fst (getFavorites now (snd (removeFavorite first again now x ls))))"
  using addFavorite_distinct removeFavorite_distinct addFavorite_present
    removeFavorite_absent addFavorite_repeat addFavorite_failed removeFavorite_repeat
    removeFavorite_failed addFavorite_idem removeFavorite_idem
  by (simp add: addFavorite_view)

theorem favorites_no_duplicates_witness:
  "distinct (storedList ''favorites'' []) \<and>
   IdV ''r1'' \<notin> set (fst (getFavorites 5 [])) \<and>
   fst (addFavorite Stores Stores 5 ''r1'' []) \<and>
   fst (removeFavorite Stores Stores 5 ''r1'' []) \<and>
   \<not> fst (addFavorite Throws Stores 5 ''r1'' []) \<and>
   fst (getFavorites 5 (snd (addFavorite Stores Stores 5 ''r1'' []))) = [IdV ''r1''] \<and>
   removeFavorite Stores Stores 5 ''r1'' [] = (True, []) \<and>
   addFavorite Stores Stores 5 ''r1'' (snd (addFavorite Stores Stores 5 ''r1'' [])) =
     (True, snd (addFavorite Stores Stores 5 ''r1'' [])) \<and>
   removeFavorite Stores Stores 5 ''r1'' (snd (removeFavorite Stores Stores 5 ''r1'' [])) =
     (True, snd (removeFavorite Stores Stores 5 ''r1'' [])) \<and>
   fst (getFavorites 5 (snd (addFavorite Throws Stores 5 ''r1'' []))) = []"
proof -
  have a: "distinct (storedList ''favorites'' [])"
    by (simp add: storedList_def getItem_def)
  have b: "IdV ''r1'' \<notin> set (fst (getFavorites 5 []))"
    and e: "snd (getFavorites 5 []) = []" and e': "fst (getFavorites 5 []) = []"
    by (simp_all add: getFavorites_def getKey_def getItem_def)
  have f: "fst (addFavorite Stores Stores 5 ''r1'' [])"
    "fst (removeFavorite Stores Stores 5 ''r1'' [])"
    "\<not> fst (addFavorite Throws Stores 5 ''r1'' [])"
    by (simp_all add: addFavorite_def removeFavorite_def getFavorites_def getKey_def
        getItem_def setKey_def noOptions_def)
  note t = favorites_no_duplicates [of "[]" Stores Stores 5 "''r1''" Stores Stores]
  note u = favorites_no_duplicates [of "[]" Throws Stores 5 "''r1''" Stores Stores]
  from t b e' have c: "fst (getFavorites 5 (snd (addFavorite Stores Stores 5 ''r1'' []))) =
      [IdV ''r1'']" by simp
  from t b e have d: "removeFavorite Stores Stores 5 ''r1'' [] = (True, [])" by simp
  from t f have g: "addFavorite Stores Stores 5 ''r1''
      (snd (addFavorite Stores Stores 5 ''r1'' [])) =
      (True, snd (addFavorite Stores Stores 5 ''r1'' []))" by blast
  from t a f have h: "removeFavorite Stores Stores 5 ''r1''
      (snd (removeFavorite Stores Stores 5 ''r1'' [])) =
      (True, snd (removeFavorite Stores Stores 5 ''r1'' []))" by blast
  from u f e' have i: "fst (getFavorites 5 (snd (addFavorite Throws Stores 5 ''r1'' []))) = []"
    by simp
  from a b c d f g h i show ?thesis by blast
qed

section \<open>Properties: download histories\<close>

lemma portalTrackDownload_take:
  "portalTrackDownload now i t ty h =
     take 100 (Tracked \<lparr>r_id = i, r_title = t, r_type = ty, r_timestamp = now\<rparr> # h)"
  by (simp add: portalTrackDownload_def Let_def)

lemma portalTrackAll_bounded:
  "length h \<le> 100 \<Longrightarrow> length (portalTrackAll ds h) \<le> 100"
  unfolding portalTrackAll_def
  by (induction ds arbitrary: h) (auto simp: portalTrackDownload_take)

lemma trackDownload_ok:
  "trackDownload None now url filename dm =
     Inr (dm\<lparr>downloadHistory := Some (take 1000
       (\<lparr>d_url = url, d_filename = filename, d_timestamp = now\<rparr> # storedDownloads dm))\<rparr>)"
  by (simp add: trackDownload_def storedDownloads_def Let_def)

lemma trackDownload_throws:
  "trackDownload (Some e) now url filename dm = Inl e"
  by (simp add: trackDownload_def Let_def)

lemma trackDownloadAll_bounded:
  "length (storedDownloads dm) \<le> 1000 \<Longrightarrow> length (storedDownloads (trackDownloadAll ds dm)) \<le> 1000"
  unfolding trackDownloadAll_def
proof (induction ds arbitrary: dm)
  case Nil
  then show ?case by simp
next
  case (Cons d ds)
  obtain fault now url filename where d: "d = (fault, now, url, filename)"
    by (cases d) auto
  show ?case
  proof (cases fault)
    case None
    have "length (storedDownloads (dm\<lparr>downloadHistory := Some (take 1000
       (\<lparr>d_url = url, d_filename = filename, d_timestamp = now\<rparr> # storedDownloads dm))\<rparr>))
       \<le> 1000"
      by (simp add: storedDownloads_def)
    from Cons.IH [OF this] show ?thesis by (simp add: d None trackDownload_ok)
  next
    case (Some e)
    from Cons.IH [OF Cons.prems] show ?thesis by (simp add: d Some trackDownload_throws)
  qed
qed

lemma addToDownloadHistory_stored:
  assumes "fst (addToDownloadHistory first again now item ls)"
  shows "storedList ''download_history'' (snd (addToDownloadHistory first again now item ls)) =
    take 100 (ItemV (item\<lparr>h_timestamp := now\<rparr>) # fst (getDownloadHistory now ls))"
proof -
  let ?h = "take 100 (ItemV (item\<lparr>h_timestamp := now\<rparr>) # fst (getDownloadHistory now ls))"
  have eq: "addToDownloadHistory first again now item ls =
      setKey first again now ''download_history'' ?h noOptions (snd (getDownloadHistory now ls))"
    by (simp add: addToDownloadHistory_def case_prod_beta Let_def)
  with assms have "setKey first again now ''download_history'' ?h noOptions
      (snd (getDownloadHistory now ls)) =
      (True, snd (addToDownloadHistory first again now item ls))"
    by (metis prod.collapse)
  from setKey_cases [OF this] show ?thesis by (simp add: storedList_def)
qed

lemma addToDownloadHistory_bounded:
  assumes "length (storedList ''download_history'' ls) \<le> 100"
  shows "length (storedList ''download_history''
    (snd (addToDownloadHistory first again now item ls))) \<le> 100"
proof -
  let ?h = "take 100 (ItemV (item\<lparr>h_timestamp := now\<rparr>) # fst (getDownloadHistory now ls))"
  let ?ls1 = "snd (getDownloadHistory now ls)"
  have eq: "addToDownloadHistory first again now item ls =
      setKey first again now ''download_history'' ?h noOptions ?ls1"
    by (simp add: addToDownloadHistory_def case_prod_beta Let_def)
  have "storedList ''download_history'' ?ls1 = fst (getDownloadHistory now ls)"
    unfolding getDownloadHistory_def by (rule storedList_after_getKey)
  moreover have "length (fst (getDownloadHistory now ls)) \<le> 100"
    using assms getKey_storedList [of now "''download_history''" ls]
    unfolding getDownloadHistory_def by auto
  moreover have "storedList ''download_history''
      (snd (setKey first again now ''download_history'' ?h noOptions ?ls1)) \<in>
      {?h, storedList ''download_history'' ?ls1, []}"
    by (rule storedList_setKey)
  ultimately show ?thesis unfolding eq by auto
qed

lemma addAllToDownloadHistory_bounded:
  "length (storedList ''download_history'' ls) \<le> 100 \<Longrightarrow>
   length (storedList ''download_history'' (addAllToDownloadHistory ds ls)) \<le> 100"
  unfolding addAllToDownloadHistory_def
proof (induction ds arbitrary: ls)
  case Nil
  then show ?case by simp
next
  case (Cons d ds)
  obtain first again now item where d: "d = (first, again, now, item)"
    by (cases d) auto
  from Cons.IH [OF addToDownloadHistory_bounded [OF Cons.prems, of first again now item]]
  show ?case by (simp add: d)
qed

lemma take_append_take: "take n (xs @ take n ys) = take n (xs @ ys)"
  by (simp add: min_def)

text \<open>
  A history under a sequence of recordings: each step that records puts its entry
  first and cuts to the cap, each other step leaves the history as it is.
\<close>

lemma foldl_kept:
  assumes step: "\<And>s d. P s \<Longrightarrow>
      P (step s d) \<and> view (step s d) = (if ok d then take n (entry d # view s) else view s)"
    and "P s" and "length (view s) \<le> n"
  shows "view (foldl step s ds) = take n (rev (map entry (filter ok ds)) @ view s)"
  using assms(2,3)
proof (induction ds arbitrary: s)
  case Nil
  then show ?case by simp
next
  case (Cons d ds)
  let ?s = "step s d" and ?A = "rev (map entry (filter ok ds))"
  from step [OF Cons.prems(1), of d]
  have P: "P ?s" and v: "view ?s = (if ok d then take n (entry d # view s) else view s)"
    by blast+
  have len: "length (view ?s) \<le> n"
  proof (cases "ok d")
    case True
    then show ?thesis by (simp add: v)
  next
    case False
    then show ?thesis using Cons.prems(2) by (simp add: v)
  qed
  have "view (foldl step s (d # ds)) = view (foldl step ?s ds)" by simp
  also have "\<dots> = take n (?A @ view ?s)" by (rule Cons.IH [OF P len])
  also have "\<dots> = take n (rev (map entry (filter ok (d # ds))) @ view s)"
  proof (cases "ok d")
    case True
    then have "take n (?A @ view ?s) = take n (?A @ take n (entry d # view s))"
      by (simp only: v if_True)
    also have "\<dots> = take n (?A @ entry d # view s)" by (rule take_append_take)
    also have "?A @ entry d # view s = rev (map entry (filter ok (d # ds))) @ view s"
      using True by simp
    finally show ?thesis .
  next
    case False
    then show ?thesis by (simp add: v)
  qed
  finally show ?case .
qed

lemma portalTrackAll_kept:
  assumes "length h \<le> 100"
  shows "portalTrackAll pds h = take 100 (rev (map trackedRecord pds) @ h)"
proof -
  have "(\<lambda>h. h) (foldl (\<lambda>h (now, i, t, ty). portalTrackDownload now i t ty h) h pds) =
      take 100 (rev (map trackedRecord (filter (\<lambda>d. True) pds)) @ (\<lambda>h. h) h)"
  proof (rule foldl_kept [where P = "\<lambda>h. True"])
    fix s :: "portalEntry list" and d :: "nat \<times> string \<times> string \<times> string"
    obtain now i t ty where d: "d = (now, i, t, ty)" by (cases d) auto
    show "True \<and> (case d of (now, i, t, ty) \<Rightarrow> portalTrackDownload now i t ty s) =
        (if True then take 100 (trackedRecord d # s) else s)"
      by (simp add: d portalTrackDownload_take trackedRecord_def)
  qed (use assms in simp_all)
  then show ?thesis by (simp add: portalTrackAll_def)
qed

lemma trackDownloadAll_kept:
  assumes "length (storedDownloads dm) \<le> 1000"
  shows "storedDownloads (trackDownloadAll mds dm) =
     take 1000 (rev (map downloadEntry (filter isRecorded mds)) @ storedDownloads dm)"
  unfolding trackDownloadAll_def
proof (rule foldl_kept [where P = "\<lambda>m. True"])
  fix s :: downloadManager and d :: "jsError option \<times> nat \<times> string \<times> string"
  obtain fault now url filename where d: "d = (fault, now, url, filename)"
    by (cases d) auto
  show "True \<and> storedDownloads (case d of (fault, now, url, filename) \<Rightarrow>
        case trackDownload fault now url filename s of Inl e \<Rightarrow> s | Inr m' \<Rightarrow> m') =
      (if isRecorded d then take 1000 (downloadEntry d # storedDownloads s)
       else storedDownloads s)"
  proof (cases fault)
    case None
    then show ?thesis
      by (simp add: d trackDownload_ok downloadEntry_def isRecorded_def)
        (simp add: storedDownloads_def)
  next
    case (Some e)
    then show ?thesis by (simp add: d trackDownload_throws isRecorded_def)
  qed
qed (use assms in simp_all)

lemma kept_getKey:
  "keptByWrapper key ls \<Longrightarrow> getKey now key [] ls = (storedList key ls, ls)"
  by (auto simp: keptByWrapper_def getKey_def storedList_def isExpired_def
      split: option.splits stored.splits)

lemma kept_clearExpired:
  assumes "keptByWrapper key ls"
  shows "getItem (storagePrefix @ key) (snd (clearExpired now ls)) =
    getItem (storagePrefix @ key) ls"
  using assms clearExpired_getItem [of "storagePrefix @ key" now ls]
  by (auto simp: keptByWrapper_def isExpired_def split: option.splits stored.splits)

lemma kept_setKey:
  assumes "keptByWrapper key ls"
  shows "keptByWrapper key (snd (setKey first again now key v noOptions ls)) \<and>
    storedList key (snd (setKey first again now key v noOptions ls)) =
      (if first = Stores \<or> first = QuotaExceeded \<and> again = Stores then v
       else storedList key ls)"
  using assms kept_clearExpired [OF assms, of now]
  by (auto simp: setKey_def noOptions_def keptByWrapper_def storedList_def getItem_setItem
      Let_def split: writeResult.splits)

lemma kept_addToDownloadHistory:
  assumes "keptByWrapper ''download_history'' ls"
  shows "keptByWrapper ''download_history''
      (snd (addToDownloadHistory first again now item ls)) \<and>
    storedList ''download_history'' (snd (addToDownloadHistory first again now item ls)) =
      (if isWritten (first, again, now, item)
       then take 100 (storedItem (first, again, now, item) # storedList ''download_history'' ls)
       else storedList ''download_history'' ls)"
proof -
  have "addToDownloadHistory first again now item ls =
      setKey first again now ''download_history''
        (take 100 (ItemV (item\<lparr>h_timestamp := now\<rparr>) # storedList ''download_history'' ls))
        noOptions ls"
    by (simp add: addToDownloadHistory_def getDownloadHistory_def kept_getKey [OF assms]
        Let_def)
  then show ?thesis
    using kept_setKey [OF assms, of first again now
        "take 100 (ItemV (item\<lparr>h_timestamp := now\<rparr>) # storedList ''download_history'' ls)"]
    by (simp add: isWritten_def storedItem_def)
qed

lemma addAllToDownloadHistory_kept:
  assumes "keptByWrapper ''download_history'' ls"
    and "length (storedList ''download_history'' ls) \<le> 100"
  shows "storedList ''download_history'' (addAllToDownloadHistory sds ls) =
     take 100 (rev (map storedItem (filter isWritten sds)) @ storedList ''download_history'' ls)"
  unfolding addAllToDownloadHistory_def
proof (rule foldl_kept [where P = "keptByWrapper ''download_history''"])
  fix s :: localStorage and d :: "writeResult \<times> writeResult \<times> nat \<times> historyItem"
  assume k: "keptByWrapper ''download_history'' s"
  obtain first again now item where d: "d = (first, again, now, item)"
    by (cases d) auto
  from kept_addToDownloadHistory [OF k, of first again now item]
  show "keptByWrapper ''download_history''
        (case d of (first, again, now, item) \<Rightarrow>
           snd (addToDownloadHistory first again now item s)) \<and>
      storedList ''download_history''
        (case d of (first, again, now, item) \<Rightarrow>
           snd (addToDownloadHistory first again now item s)) =
      (if isWritten d then take 100 (storedItem d # storedList ''download_history'' s)
       else storedList ''download_history'' s)"
    by (simp add: d)
qed (use assms in simp_all)

lemma take_numbered: "take (n - 1) (numbered f n) = map f (rev [1..<n])"
proof (cases n)
  case 0
  then show ?thesis by (simp add: numbered_def)
next
  case (Suc m)
  have "drop (Suc 0) [0..<Suc m] = [Suc 0..<Suc m]" by (simp only: drop_upt) simp
  then show ?thesis
    unfolding numbered_def take_map take_rev Suc by simp
qed

lemma length_numbered: "length (numbered f n) = n"
  by (simp add: numbered_def)

text \<open>
  Claim C4. Whatever downloads are recorded, no download history exceeds its cap: 100
  entries for the list the Application Controller keeps in memory and for the
  \<open>download_history\<close> of the store wrapper, 1000 for the \<open>downloadHistory\<close> the
  Download Manager stores. After any sequence of recordings a history that was within
  its cap is the recorded entries, the newest first, before the entries it held, cut
  to the cap: the oldest entries are the ones dropped. For the wrapper this is said of
  a store whose key \<open>download_history\<close> is absent or holds what the wrapper writes
  there, an envelope that does not expire. An entry whose write the store refuses is
  not recorded.
\<close>

theorem download_history_caps:
  "(length h \<le> 100 \<longrightarrow>
      portalTrackAll pds h = take 100 (rev (map trackedRecord pds) @ h) \<and>
      length (portalTrackAll pds h) \<le> 100) \<and>
   portalTrackDownload now i t ty h =
     take 100 (Tracked \<lparr>r_id = i, r_title = t, r_type = ty, r_timestamp = now\<rparr> # h) \<and>
   (keptByWrapper ''download_history'' ls \<and>
    length (storedList ''download_history'' ls) \<le> 100 \<longrightarrow>
      storedList ''download_history'' (addAllToDownloadHistory sds ls) =
        take 100 (rev (map storedItem (filter isWritten sds)) @
                  storedList ''download_history'' ls)) \<and>
   (keptByWrapper ''download_history'' ls \<longrightarrow>
      keptByWrapper ''download_history''
        (snd (addToDownloadHistory first again now item ls)) \<and>
      storedList ''download_history'' (snd (addToDownloadHistory first again now item ls)) =
        (if isWritten (first, again, now, item)
         then take 100 (ItemV (item\<lparr>h_timestamp := now\<rparr>) #
                        storedList ''download_history'' ls)
         else storedList ''download_history'' ls)) \<and>
   (fst (addToDownloadHistory first again now item ls) \<longrightarrow>
      storedList ''download_history'' (snd (addToDownloadHistory first again now item ls)) =
        take 100 (ItemV (item\<lparr>h_timestamp := now\<rparr>) # fst (getDownloadHistory now ls))) \<and>
   (length (storedList ''download_history'' ls) \<le> 100 \<longrightarrow>
      length (storedList ''download_history'' (addAllToDownloadHistory sds ls)) \<le> 100) \<and>
   (length (storedDownloads dm) \<le> 1000 \<longrightarrow>
      storedDownloads (trackDownloadAll mds dm) =
        take 1000 (rev (map downloadEntry (filter isRecorded mds)) @ storedDownloads dm) \<and>
      length (storedDownloads (trackDownloadAll mds dm)) \<le> 1000) \<and>
   trackDownload None now url filename dm =
     Inr (dm\<lparr>downloadHistory := Some (take 1000
       (\<lparr>d_url = url, d_filename = filename, d_timestamp = now\<rparr> # storedDownloads dm))\<rparr>)"
proof -
  have c1: "length h \<le> 100 \<longrightarrow>
      portalTrackAll pds h = take 100 (rev (map trackedRecord pds) @ h) \<and>
      length (portalTrackAll pds h) \<le> 100"
    using portalTrackAll_kept [of h pds] portalTrackAll_bounded [of h pds] by blast
  have c2: "portalTrackDownload now i t ty h =
     take 100 (Tracked \<lparr>r_id = i, r_title = t, r_type = ty, r_timestamp = now\<rparr> # h)"
    by (rule portalTrackDownload_take)
  have c3: "keptByWrapper ''download_history'' ls \<and>
    length (storedList ''download_history'' ls) \<le> 100 \<longrightarrow>
      storedList ''download_history'' (addAllToDownloadHistory sds ls) =
        take 100 (rev (map storedItem (filter isWritten sds)) @
                  storedList ''download_history'' ls)"
    using addAllToDownloadHistory_kept [of ls sds] by blast
  have c4: "keptByWrapper ''download_history'' ls \<longrightarrow>
      keptByWrapper ''download_history''
        (snd (addToDownloadHistory first again now item ls)) \<and>
      storedList ''download_history'' (snd (addToDownloadHistory first again now item ls)) =
        (if isWritten (first, again, now, item)
         then take 100 (ItemV (item\<lparr>h_timestamp := now\<rparr>) #
                        storedList ''download_history'' ls)
         else storedList ''download_history'' ls)"
    using kept_addToDownloadHistory [of ls first again now item]
    by (simp add: storedItem_def)
  have c5: "fst (addToDownloadHistory first again now item ls) \<longrightarrow>
      storedList ''download_history'' (snd (addToDownloadHistory first again now item ls)) =
        take 100 (ItemV (item\<lparr>h_timestamp := now\<rparr>) # fst (getDownloadHistory now ls))"
    using addToDownloadHistory_stored [of first again now item ls] by blast
  have c6: "length (storedList ''download_history'' ls) \<le> 100 \<longrightarrow>
      length (storedList ''download_history'' (addAllToDownloadHistory sds ls)) \<le> 100"
    using addAllToDownloadHistory_bounded [of ls sds] by blast
  have c7: "length (storedDownloads dm) \<le> 1000 \<longrightarrow>
      storedDownloads (trackDownloadAll mds dm) =
        take 1000 (rev (map downloadEntry (filter isRecorded mds)) @ storedDownloads dm) \<and>
      length (storedDownloads (trackDownloadAll mds dm)) \<le> 1000"
    using trackDownloadAll_kept [of dm mds] trackDownloadAll_bounded [of dm mds] by blast
  have c8: "trackDownload None now url filename dm =
     Inr (dm\<lparr>downloadHistory := Some (take 1000
       (\<lparr>d_url = url, d_filename = filename, d_timestamp = now\<rparr> # storedDownloads dm))\<rparr>)"
    by (rule trackDownload_ok)
  from c1 c2 c3 c4 c5 c6 c7 c8 show ?thesis by (intro conjI)
qed

theorem download_history_caps_witness:
  "length (numbered (\<lambda>n. trackedRecord (n, ''old'', ''Old'', ''pdf'')) 100) \<le> 100 \<and>
   portalTrackAll [(100, ''new'', ''New'', ''pdf'')]
       (numbered (\<lambda>n. trackedRecord (n, ''old'', ''Old'', ''pdf'')) 100) =
     trackedRecord (100, ''new'', ''New'', ''pdf'') #
       map (\<lambda>n. trackedRecord (n, ''old'', ''Old'', ''pdf'')) (rev [1..<100]) \<and>
   keptByWrapper ''download_history''
     [(''examportal_download_history'',
       Envelope \<lparr>val = numbered (\<lambda>n. ItemV (exampleItem n)) 100, timestamp = 99,
                 expires = None, version = ''1.0''\<rparr>)] \<and>
   length (storedList ''download_history''
     [(''examportal_download_history'',
       Envelope \<lparr>val = numbered (\<lambda>n. ItemV (exampleItem n)) 100, timestamp = 99,
                 expires = None, version = ''1.0''\<rparr>)]) \<le> 100 \<and>
   storedList ''download_history''
     (addAllToDownloadHistory
        [(Throws, Stores, 100, exampleItem 0), (Stores, Stores, 101, exampleItem 0)]
        [(''examportal_download_history'',
          Envelope \<lparr>val = numbered (\<lambda>n. ItemV (exampleItem n)) 100, timestamp = 99,
                    expires = None, version = ''1.0''\<rparr>)]) =
     ItemV (exampleItem 101) # map (\<lambda>n. ItemV (exampleItem n)) (rev [1..<100]) \<and>
   length (storedDownloads (newDownloadManager\<lparr>downloadHistory :=
     Some (numbered (\<lambda>n. downloadEntry (None, n, ''/a.pdf'', ''a.pdf'')) 1000)\<rparr>)) \<le> 1000 \<and>
   storedDownloads (trackDownloadAll
       [(Some (JsError ''QuotaExceededError'' ''full''), 1000, ''/b.pdf'', ''b.pdf''),
        (None, 1001, ''/c.pdf'', ''c.pdf'')]
       (newDownloadManager\<lparr>downloadHistory :=
          Some (numbered (\<lambda>n. downloadEntry (None, n, ''/a.pdf'', ''a.pdf'')) 1000)\<rparr>)) =
     downloadEntry (None, 1001, ''/c.pdf'', ''c.pdf'') #
       map (\<lambda>n. downloadEntry (None, n, ''/a.pdf'', ''a.pdf'')) (rev [1..<1000])"
proof -
  let ?h = "numbered (\<lambda>n. trackedRecord (n, ''old'', ''Old'', ''pdf'')) 100"
  let ?ls = "[(''examportal_download_history'',
       Envelope \<lparr>val = numbered (\<lambda>n. ItemV (exampleItem n)) 100, timestamp = 99,
                 expires = None, version = ''1.0''\<rparr>)]"
  let ?dm = "newDownloadManager\<lparr>downloadHistory :=
     Some (numbered (\<lambda>n. downloadEntry (None, n, ''/a.pdf'', ''a.pdf'')) 1000)\<rparr>"
  have cut: "take n (x # numbered f n) = x # map f (rev [1..<n])" if "0 < n"
    for n and x :: 'a and f
    using that take_numbered [of n f] by (cases n) simp_all
  have a: "length ?h \<le> 100" by (simp add: length_numbered)
  have b: "keptByWrapper ''download_history'' ?ls"
    by (simp add: keptByWrapper_def getItem_def storagePrefix_def)
  have s: "storedList ''download_history'' ?ls = numbered (\<lambda>n. ItemV (exampleItem n)) 100"
    by (simp add: storedList_def getItem_def storagePrefix_def)
  have c: "length (storedList ''download_history'' ?ls) \<le> 100"
    unfolding s by (simp add: length_numbered)
  have m: "storedDownloads ?dm =
      numbered (\<lambda>n. downloadEntry (None, n, ''/a.pdf'', ''a.pdf'')) 1000"
    by (simp add: storedDownloads_def)
  have d: "length (storedDownloads ?dm) \<le> 1000"
    unfolding m by (simp add: length_numbered)
  note t = download_history_caps [where h = ?h and pds = "[(100, ''new'', ''New'', ''pdf'')]"
      and ls = ?ls
      and sds = "[(Throws, Stores, 100, exampleItem 0), (Stores, Stores, 101, exampleItem 0)]"
      and dm = ?dm
      and mds = "[(Some (JsError ''QuotaExceededError'' ''full''), 1000, ''/b.pdf'', ''b.pdf''),
        (None, 1001, ''/c.pdf'', ''c.pdf'')]"]
  from t a have "portalTrackAll [(100, ''new'', ''New'', ''pdf'')] ?h =
      take 100 (rev (map trackedRecord [(100, ''new'', ''New'', ''pdf'')]) @ ?h)" by blast
  then have p: "portalTrackAll [(100, ''new'', ''New'', ''pdf'')] ?h =
      trackedRecord (100, ''new'', ''New'', ''pdf'') #
       map (\<lambda>n. trackedRecord (n, ''old'', ''Old'', ''pdf'')) (rev [1..<100])"
    by (simp add: cut del: upt_rec_numeral take_Cons_numeral)
  from t b c have "storedList ''download_history''
     (addAllToDownloadHistory
        [(Throws, Stores, 100, exampleItem 0), (Stores, Stores, 101, exampleItem 0)] ?ls) =
      take 100 (rev (map storedItem (filter isWritten
        [(Throws, Stores, 100, exampleItem 0), (Stores, Stores, 101, exampleItem 0)])) @
        storedList ''download_history'' ?ls)" by blast
  then have w: "storedList ''download_history''
     (addAllToDownloadHistory
        [(Throws, Stores, 100, exampleItem 0), (Stores, Stores, 101, exampleItem 0)] ?ls) =
      ItemV (exampleItem 101) # map (\<lambda>n. ItemV (exampleItem n)) (rev [1..<100])"
    unfolding s
    by (simp add: cut isWritten_def storedItem_def exampleItem_def
        del: upt_rec_numeral take_Cons_numeral)
  from t d have "storedDownloads (trackDownloadAll
       [(Some (JsError ''QuotaExceededError'' ''full''), 1000, ''/b.pdf'', ''b.pdf''),
        (None, 1001, ''/c.pdf'', ''c.pdf'')] ?dm) =
      take 1000 (rev (map downloadEntry (filter isRecorded
        [(Some (JsError ''QuotaExceededError'' ''full''), 1000, ''/b.pdf'', ''b.pdf''),
         (None, 1001, ''/c.pdf'', ''c.pdf'')])) @ storedDownloads ?dm)" by blast
  then have r: "storedDownloads (trackDownloadAll
       [(Some (JsError ''QuotaExceededError'' ''full''), 1000, ''/b.pdf'', ''b.pdf''),
        (None, 1001, ''/c.pdf'', ''c.pdf'')] ?dm) =
      downloadEntry (None, 1001, ''/c.pdf'', ''c.pdf'') #
       map (\<lambda>n. downloadEntry (None, n, ''/a.pdf'', ''a.pdf'')) (rev [1..<1000])"
    unfolding m
    by (simp add: cut isRecorded_def del: upt_rec_numeral take_Cons_numeral)
  from a b c d p w r show ?thesis by blast
qed

section \<open>Properties: search and download\<close>

text \<open>
  Claim C8. On an indexed data set, a search for the empty query returns the empty
  list when \<open>returnAll\<close> is false and the whole indexed list when it is true,
  whatever filters and limit the options carry.
\<close>

theorem search_empty_query:
  "search [] (options\<lparr>returnAll := False\<rparr>) (indexResources rs e) = Inr [] \<and>
   search [] (options\<lparr>returnAll := True\<rparr>) (indexResources rs e) = Inr rs"
  by (simp add: search_def indexResources_def)

theorem search_empty_query_witness:
  "search [] \<lparr>returnAll = False, filters = None, limit = Some 1\<rparr>
     (indexResources [exampleResource ''a'' ''10'' 5, exampleResource ''b'' ''11'' 9]
        newSearchEngine) = Inr [] \<and>
   search [] \<lparr>returnAll = True, filters = None, limit = Some 1\<rparr>
     (indexResources [exampleResource ''a'' ''10'' 5, exampleResource ''b'' ''11'' 9]
        newSearchEngine) =
     Inr [exampleResource ''a'' ''10'' 5, exampleResource ''b'' ''11'' 9]"
  using search_empty_query [of "\<lparr>returnAll = True, filters = None, limit = Some 1\<rparr>"
      "[exampleResource ''a'' ''10'' 5, exampleResource ''b'' ''11'' 9]" newSearchEngine]
  by simp

lemma attempt_thrown:
  "thrown a = Some e \<Longrightarrow> attempt a url filename options dm = (Some e, dm)"
  by (auto simp: thrown_def attempt_def trackDownload_def Let_def split: option.splits)

lemma downloadPDF_all_fail:
  assumes fails: "\<And>r. thrown (env r) \<noteq> None"
  shows "retryCount options \<le> maxRetries dm \<Longrightarrow>
    downloadPDF env url filename options dm =
      (case onError options of
         NotGiven \<Rightarrow>
           (Inr (Failed (message (the (thrown (env (maxRetries dm)))))),
            dm\<lparr>attempts := attempts dm + (maxRetries dm - retryCount options + 1)\<rparr>)
       | Given f \<Rightarrow>
           (case f (maxRetries dm) of
              None \<Rightarrow> Inr (Failed (message (the (thrown (env (maxRetries dm))))))
            | Some x \<Rightarrow> Inl x,
            dm\<lparr>attempts := attempts dm + (maxRetries dm - retryCount options + 1),
               calls := calls dm @
                 [OnError url filename (the (thrown (env (maxRetries dm))))]\<rparr>))"
proof (induction "maxRetries dm - retryCount options" arbitrary: options dm)
  case 0
  then have r: "retryCount options = maxRetries dm" by simp
  obtain e where e: "thrown (env (maxRetries dm)) = Some e" using fails by blast
  show ?case
    by (subst downloadPDF.simps)
      (simp add: r attempt_thrown [OF e] e split: callback.splits option.splits)
next
  case (Suc n)
  then have lt: "retryCount options < maxRetries dm" by simp
  obtain e where e: "thrown (env (retryCount options)) = Some e" using fails by blast
  let ?o = "options\<lparr>retryCount := retryCount options + 1\<rparr>"
  let ?d = "dm\<lparr>attempts := attempts dm + 1\<rparr>"
  have step: "downloadPDF env url filename options dm = downloadPDF env url filename ?o ?d"
    by (subst downloadPDF.simps) (simp add: attempt_thrown [OF e] lt)
  have "n = maxRetries ?d - retryCount ?o" using Suc.hyps(2) by simp
  moreover have "retryCount ?o \<le> maxRetries ?d" using lt by simp
  ultimately have "downloadPDF env url filename ?o ?d =
      (case onError ?o of
         NotGiven \<Rightarrow>
           (Inr (Failed (message (the (thrown (env (maxRetries ?d)))))),
            ?d\<lparr>attempts := attempts ?d + (maxRetries ?d - retryCount ?o + 1)\<rparr>)
       | Given f \<Rightarrow>
           (case f (maxRetries ?d) of
              None \<Rightarrow> Inr (Failed (message (the (thrown (env (maxRetries ?d))))))
            | Some x \<Rightarrow> Inl x,
            ?d\<lparr>attempts := attempts ?d + (maxRetries ?d - retryCount ?o + 1),
               calls := calls ?d @
                 [OnError url filename (the (thrown (env (maxRetries ?d))))]\<rparr>))"
    by (rule Suc.hyps(1))
  moreover have "Suc (Suc (attempts dm + maxRetries dm - Suc (retryCount options))) =
      Suc (attempts dm + maxRetries dm - retryCount options)"
    using lt by arith
  ultimately show ?case unfolding step using lt
    by (simp cong: callback.case_cong option.case_cong)
qed

text \<open>
  Claim C3. When every attempt at a download fails, \<open>downloadPDF\<close>, called with the
  retry counter at its start value 0, makes \<open>maxRetries + 1\<close> attempts, which are 4
  for the manager as constructed, and no more, then calls \<open>onError\<close> once if the
  caller gave it. Without \<open>onError\<close>, or when \<open>onError\<close> returns, the promise resolves
  with the failure result that holds the message of the last exception; when
  \<open>onError\<close> throws, the promise rejects with the exception of \<open>onError\<close>.
\<close>

theorem downloadPDF_always_failing:
  assumes "\<And>r. thrown (env r) \<noteq> None"
  shows "downloadPDF env url filename (options\<lparr>retryCount := 0\<rparr>) dm =
      (case onError options of
         NotGiven \<Rightarrow>
           (Inr (Failed (message (the (thrown (env (maxRetries dm)))))),
            dm\<lparr>attempts := attempts dm + (maxRetries dm + 1)\<rparr>)
       | Given f \<Rightarrow>
           (case f (maxRetries dm) of
              None \<Rightarrow> Inr (Failed (message (the (thrown (env (maxRetries dm))))))
            | Some x \<Rightarrow> Inl x,
            dm\<lparr>attempts := attempts dm + (maxRetries dm + 1),
               calls := calls dm @
                 [OnError url filename (the (thrown (env (maxRetries dm))))]\<rparr>)) \<and>
    maxRetries newDownloadManager + 1 = 4"
  using downloadPDF_all_fail [of env "options\<lparr>retryCount := 0\<rparr>" dm url filename, OF assms]
  by (simp add: newDownloadManager_def cong: callback.case_cong option.case_cong)

theorem downloadPDF_always_failing_witness:
  "(\<forall>r. thrown ((\<lambda>r. \<lparr>linkThrows = Some (JsError ''Error'' ''blocked''),
       storageThrows = None, clock = r\<rparr>) r) \<noteq> None) \<and>
   downloadPDF (\<lambda>r. \<lparr>linkThrows = Some (JsError ''Error'' ''blocked''),
       storageThrows = None, clock = r\<rparr>) ''/a.pdf'' ''a.pdf''
     (defaultOptions\<lparr>onError := Given (\<lambda>r. None)\<rparr>) newDownloadManager =
     (Inr (Failed ''blocked''),
      newDownloadManager\<lparr>attempts := 4,
        calls := [OnError ''/a.pdf'' ''a.pdf'' (JsError ''Error'' ''blocked'')]\<rparr>) \<and>
   downloadPDF (\<lambda>r. \<lparr>linkThrows = None,
       storageThrows = Some (JsError ''QuotaExceededError'' ''full''), clock = r\<rparr>)
     ''/a.pdf'' ''a.pdf'' defaultOptions newDownloadManager =
     (Inr (Failed ''full''), newDownloadManager\<lparr>attempts := 4\<rparr>)"
proof -
  let ?env = "\<lambda>r. \<lparr>linkThrows = Some (JsError ''Error'' ''blocked''),
       storageThrows = None, clock = r\<rparr>"
  let ?env' = "\<lambda>r. \<lparr>linkThrows = None,
       storageThrows = Some (JsError ''QuotaExceededError'' ''full''), clock = r\<rparr>"
  have h: "thrown (?env r) \<noteq> None" for r by (simp add: thrown_def)
  have h': "thrown (?env' r) \<noteq> None" for r by (simp add: thrown_def)
  have o: "(defaultOptions\<lparr>onError := Given (\<lambda>r. None)\<rparr>)\<lparr>retryCount := 0\<rparr> =
      defaultOptions\<lparr>onError := Given (\<lambda>r. None)\<rparr>"
    by (simp add: defaultOptions_def)
  have o': "defaultOptions\<lparr>retryCount := 0\<rparr> = defaultOptions"
    by (simp add: defaultOptions_def)
  from downloadPDF_always_failing [of ?env "''/a.pdf''" "''a.pdf''"
      "defaultOptions\<lparr>onError := Given (\<lambda>r. None)\<rparr>" newDownloadManager, OF h]
  have a: "downloadPDF ?env ''/a.pdf'' ''a.pdf''
     (defaultOptions\<lparr>onError := Given (\<lambda>r. None)\<rparr>) newDownloadManager =
     (Inr (Failed ''blocked''),
      newDownloadManager\<lparr>attempts := 4,
        calls := [OnError ''/a.pdf'' ''a.pdf'' (JsError ''Error'' ''blocked'')]\<rparr>)"
    unfolding o by (simp add: thrown_def newDownloadManager_def defaultOptions_def)
  from downloadPDF_always_failing [of ?env' "''/a.pdf''" "''a.pdf''"
      defaultOptions newDownloadManager, OF h']
  have b: "downloadPDF ?env' ''/a.pdf'' ''a.pdf'' defaultOptions newDownloadManager =
     (Inr (Failed ''full''), newDownloadManager\<lparr>attempts := 4\<rparr>)"
    unfolding o' by (simp add: thrown_def newDownloadManager_def defaultOptions_def)
  from h a b show ?thesis by simp
qed

text \<open>
  The claim as first put, that the call never throws to the caller, fails where the
  \<open>onError\<close> of the caller throws: all four attempts fail, \<open>onError\<close> is called, and
  the promise rejects with its exception in place of resolving with a failure result.
\<close>

theorem downloadPDF_rejects_when_onError_throws:
  "(\<forall>r. thrown (\<lparr>linkThrows = Some (JsError ''Error'' ''blocked''),
       storageThrows = None, clock = r\<rparr>) \<noteq> None) \<and>
   downloadPDF (\<lambda>r. \<lparr>linkThrows = Some (JsError ''Error'' ''blocked''),
       storageThrows = None, clock = r\<rparr>) ''/a.pdf'' ''a.pdf''
     (defaultOptions\<lparr>onError := Given (\<lambda>r. Some (JsError ''QuotaExceededError'' ''full''))\<rparr>)
     newDownloadManager =
     (Inl (JsError ''QuotaExceededError'' ''full''),
      newDownloadManager\<lparr>attempts := 4,
        calls := [OnError ''/a.pdf'' ''a.pdf'' (JsError ''Error'' ''blocked'')]\<rparr>) \<and>
   (\<forall>result. fst (downloadPDF (\<lambda>r. \<lparr>linkThrows = Some (JsError ''Error'' ''blocked''),
       storageThrows = None, clock = r\<rparr>) ''/a.pdf'' ''a.pdf''
     (defaultOptions\<lparr>onError := Given (\<lambda>r. Some (JsError ''QuotaExceededError'' ''full''))\<rparr>)
     newDownloadManager) \<noteq> Inr result)"
proof -
  let ?env = "\<lambda>r. \<lparr>linkThrows = Some (JsError ''Error'' ''blocked''),
       storageThrows = None, clock = r\<rparr>"
  let ?o = "defaultOptions\<lparr>onError :=
      Given (\<lambda>r. Some (JsError ''QuotaExceededError'' ''full''))\<rparr>"
  have h: "thrown (?env r) \<noteq> None" for r by (simp add: thrown_def)
  have "retryCount ?o \<le> maxRetries newDownloadManager"
    by (simp add: defaultOptions_def)
  from downloadPDF_all_fail [of ?env ?o newDownloadManager "''/a.pdf''" "''a.pdf''", OF h this]
  have a: "downloadPDF ?env ''/a.pdf'' ''a.pdf'' ?o newDownloadManager =
     (Inl (JsError ''QuotaExceededError'' ''full''),
      newDownloadManager\<lparr>attempts := 4,
        calls := [OnError ''/a.pdf'' ''a.pdf'' (JsError ''Error'' ''blocked'')]\<rparr>)"
    by (simp add: thrown_def newDownloadManager_def defaultOptions_def)
  from h a show ?thesis by simp
qed


section \<open>Properties: the analytics queue\<close>

lemma getSessionId_keeps:
  "enabled (snd (getSessionId c t)) = enabled t \<and> queue (snd (getSessionId c t)) = queue t \<and>
   persisted (snd (getSessionId c t)) = persisted t \<and>
   inFlight (snd (getSessionId c t)) = inFlight t"
  by (simp add: getSessionId_def Let_def split: option.splits)

lemma getUserId_keeps:
  "enabled (snd (getUserId c t)) = enabled t \<and> queue (snd (getUserId c t)) = queue t \<and>
   persisted (snd (getUserId c t)) = persisted t \<and>
   inFlight (snd (getUserId c t)) = inFlight t"
  by (simp add: getUserId_def Let_def split: option.splits)

lemma queueEvent_disabled: "\<not> enabled t \<Longrightarrow> queueEvent c ev t = (Inr False, t)"
  by (simp add: queueEvent_def)

lemma queueEvent_never_false: "enabled t \<Longrightarrow> fst (queueEvent c ev t) \<noteq> Inr False"
  by (simp add: queueEvent_def Let_def split: prod.splits sum.splits)

lemma queueEvent_throws:
  assumes "fst (queueEvent c ev t) = Inl e"
  shows "queue (snd (queueEvent c ev t)) = queue t \<and>
    persisted (snd (queueEvent c ev t)) = persisted t \<and>
    inFlight (snd (queueEvent c ev t)) = inFlight t \<and>
    enabled (snd (queueEvent c ev t)) = enabled t"
proof (cases "enabled t")
  case False
  then show ?thesis by (simp add: queueEvent_disabled)
next
  case True
  obtain r1 t1 where s: "getSessionId c t = (r1, t1)" by (cases "getSessionId c t") auto
  obtain r2 t2 where u: "getUserId c t1 = (r2, t2)" by (cases "getUserId c t1") auto
  from getSessionId_keeps [of c t] s
  have k1: "enabled t1 = enabled t" "queue t1 = queue t" "persisted t1 = persisted t"
    "inFlight t1 = inFlight t" by simp_all
  from getUserId_keeps [of c t1] u
  have k2: "enabled t2 = enabled t1" "queue t2 = queue t1" "persisted t2 = persisted t1"
    "inFlight t2 = inFlight t1" by simp_all
  show ?thesis
  proof (cases r1)
    case (Inl e1)
    then show ?thesis using True s k1 by (simp add: queueEvent_def)
  next
    case sid: (Inr sid)
    show ?thesis
    proof (cases r2)
      case (Inl e2)
      then show ?thesis using True s u sid k1 k2 by (simp add: queueEvent_def)
    next
      case (Inr uid)
      then have "fst (queueEvent c ev t) = Inr True"
        using True s u sid by (simp add: queueEvent_def Let_def)
      with assms show ?thesis by simp
    qed
  qed
qed

lemma queueEvent_returns:
  assumes "enabled t" "fst (queueEvent c ev t) = Inr True"
  shows "queue (snd (queueEvent c ev t)) =
      (if length (queue t) + 1 \<ge> 20 then [] else queue t @ [stamped c ev t]) \<and>
    inFlight (snd (queueEvent c ev t)) =
      (if length (queue t) + 1 \<ge> 20 then inFlight t @ [queue t @ [stamped c ev t]]
       else inFlight t) \<and>
    enabled (snd (queueEvent c ev t)) \<and>
    persisted (snd (queueEvent c ev t)) =
      (if saveSucceeds c then Some (queue t @ [stamped c ev t]) else persisted t)"
proof -
  obtain r1 t1 where s: "getSessionId c t = (r1, t1)" by (cases "getSessionId c t") auto
  obtain r2 t2 where u: "getUserId c t1 = (r2, t2)" by (cases "getUserId c t1") auto
  from getSessionId_keeps [of c t] s
  have k1: "enabled t1 = enabled t" "queue t1 = queue t" "persisted t1 = persisted t"
    "inFlight t1 = inFlight t" by simp_all
  from getUserId_keeps [of c t1] u
  have k2: "enabled t2 = enabled t1" "queue t2 = queue t1" "persisted t2 = persisted t1"
    "inFlight t2 = inFlight t1" by simp_all
  from assms s obtain sid where sid: "r1 = Inr sid"
    by (cases r1) (simp_all add: queueEvent_def)
  from assms s u sid obtain uid where uid: "r2 = Inr uid"
    by (cases r2) (simp_all add: queueEvent_def)
  show ?thesis
    using assms(1) k1 k2
    by (simp add: queueEvent_def stamped_def s u sid uid saveQueue_def flushQueue_def
        sendEventsStart_def Let_def)
qed

lemma sendEventsSettle_failed:
  "queue (snd (sendEventsSettle False saves events t)) = events @ queue t \<and>
   \<not> fst (sendEventsSettle False saves events t) \<and>
   persisted (snd (sendEventsSettle False saves events t)) =
     (if saves then Some (events @ queue t) else persisted t)"
  by (simp add: sendEventsSettle_def saveQueue_def Let_def)

lemma content_stamped: "content (stamped c ev t) = content ev"
  by (simp add: content_def stamped_def Let_def split: prod.splits sum.splits)

lemma content_stampedAll: "map content (stampedAll es t) = map content (accepted es t)"
  by (induction es t rule: stampedAll.induct) (simp_all add: content_stamped)

lemma length_stampedAll: "length (stampedAll es t) = length (accepted es t)"
  by (induction es t rule: stampedAll.induct) simp_all

lemma queueAll_Cons: "queueAll ((c, ev) # es) t = queueAll es (snd (queueEvent c ev t))"
  by (simp add: queueAll_def)

lemma queueEvent_passed:
  assumes "enabled t" "fst (queueEvent c ev t) \<noteq> Inr True"
  shows "(\<exists>e. fst (queueEvent c ev t) = Inl e) \<and>
    queue (snd (queueEvent c ev t)) = queue t \<and>
    persisted (snd (queueEvent c ev t)) = persisted t \<and>
    inFlight (snd (queueEvent c ev t)) = inFlight t \<and>
    enabled (snd (queueEvent c ev t))"
proof (cases "fst (queueEvent c ev t)")
  case (Inl e)
  with queueEvent_throws [OF Inl] assms(1) show ?thesis by simp
next
  case (Inr b)
  with assms queueEvent_never_false [OF assms(1), of c ev] show ?thesis by (cases b) simp_all
qed

text \<open>Calls that do not bring the queue to 20 start no flush.\<close>

lemma queueAll_below:
  "enabled t \<Longrightarrow> length (queue t) + length (stampedAll es t) < 20 \<Longrightarrow>
   enabled (queueAll es t) \<and> inFlight (queueAll es t) = inFlight t \<and>
   queue (queueAll es t) = queue t @ stampedAll es t"
proof (induction es t rule: stampedAll.induct)
  case (1 t)
  then show ?case by (simp add: queueAll_def)
next
  case (2 c ev es t)
  let ?t = "snd (queueEvent c ev t)"
  show ?case
  proof (cases "fst (queueEvent c ev t) = Inr True")
    case True
    have below: "\<not> length (queue t) + 1 \<ge> 20" using "2.prems" True by simp
    from queueEvent_returns [OF "2.prems"(1) True] below
    have q: "queue ?t = queue t @ [stamped c ev t]" "inFlight ?t = inFlight t" "enabled ?t"
      by simp_all
    have "length (queue ?t) + length (stampedAll es ?t) < 20"
      using q "2.prems" True by simp
    from "2.IH" [OF q(3) this] q True show ?thesis by (simp add: queueAll_Cons)
  next
    case False
    from queueEvent_passed [OF "2.prems"(1) False]
    have q: "queue ?t = queue t" "inFlight ?t = inFlight t" "enabled ?t" by simp_all
    have "length (queue ?t) + length (stampedAll es ?t) < 20"
      using q "2.prems" False by simp
    from "2.IH" [OF q(3) this] q False show ?thesis by (simp add: queueAll_Cons)
  qed
qed

text \<open>Calls that bring the queue to 20 flush all of it.\<close>

lemma queueAll_reaches:
  "enabled t \<Longrightarrow> length (queue t) + length (stampedAll es t) = 20 \<Longrightarrow>
   stampedAll es t \<noteq> [] \<Longrightarrow>
   enabled (queueAll es t) \<and> queue (queueAll es t) = [] \<and>
   inFlight (queueAll es t) = inFlight t @ [queue t @ stampedAll es t]"
proof (induction es t rule: stampedAll.induct)
  case (1 t)
  then show ?case by simp
next
  case (2 c ev es t)
  let ?t = "snd (queueEvent c ev t)"
  show ?case
  proof (cases "fst (queueEvent c ev t) = Inr True")
    case True
    note q = queueEvent_returns [OF "2.prems"(1) True]
    show ?thesis
    proof (cases "stampedAll es ?t = []")
      case none: True
      then have "length (queue t) + 1 \<ge> 20" using "2.prems" True by simp
      with q have q': "queue ?t = []" "inFlight ?t = inFlight t @ [queue t @ [stamped c ev t]]"
        "enabled ?t" by simp_all
      have "length (queue ?t) + length (stampedAll es ?t) < 20" using q' none by simp
      from queueAll_below [OF q'(3) this] q' none True show ?thesis
        by (simp add: queueAll_Cons)
    next
      case some: False
      then obtain x xs where "stampedAll es ?t = x # xs"
        by (cases "stampedAll es ?t") simp_all
      then have "length (stampedAll ((c, ev) # es) t) = Suc (Suc (length xs))"
        using True by simp
      with "2.prems"(2) have below: "\<not> length (queue t) + 1 \<ge> 20" by arith
      from q below
      have q': "queue ?t = queue t @ [stamped c ev t]" "inFlight ?t = inFlight t" "enabled ?t"
        by simp_all
      have "length (queue ?t) + length (stampedAll es ?t) = 20" using q' "2.prems" True by simp
      from "2.IH" [OF q'(3) this some] q' True show ?thesis by (simp add: queueAll_Cons)
    qed
  next
    case False
    from queueEvent_passed [OF "2.prems"(1) False]
    have q: "queue ?t = queue t" "inFlight ?t = inFlight t" "enabled ?t" by simp_all
    have l: "length (queue ?t) + length (stampedAll es ?t) = 20"
      and n: "stampedAll es ?t \<noteq> []"
      using q "2.prems" False by simp_all
    from "2.IH" [OF q(3) l n] q False show ?thesis by (simp add: queueAll_Cons)
  qed
qed

lemma flushQueueSync_failed:
  assumes "enabled t" "queue t \<noteq> []" "sendBeacon c \<noteq> BeaconQueued"
    "\<forall>status. xhrStatus c = Some status \<longrightarrow> \<not> (200 \<le> status \<and> status < 300)"
  shows "queue (flushQueueSync c t) = queue t \<and>
    (syncSaveSucceeds c \<longrightarrow> persisted (flushQueueSync c t) = Some (queue t))"
  using assms
  by (auto simp: flushQueueSync_def sendEventsSync_def saveQueue_def Let_def
      split: option.splits)

text \<open>
  Claim C2, amended. On an enabled tracker a call of \<open>queueEvent\<close> that returns
  \<open>true\<close> appends the event, and when that brings the queue to 20 it starts a flush:
  the whole queue goes to \<open>fetch\<close> and the queue in memory is empty. A call that does
  not return \<open>true\<close> throws, from a write of an identifier, and queues nothing. When
  the send of a batch fails, the batch goes in front of whatever the queue in memory
  holds at that moment, and the persisted queue becomes that list when the write of it
  succeeds and stays as it was when the write throws. So, after the flush at 20 and
  any calls of \<open>queueEvent\<close> meanwhile, with no other flush: if these calls queued
  fewer than 20 events, the queue is the failed batch followed by these events in
  their order; if they queued 20 events, a second flush took them, they are in flight,
  and the queue is the failed batch alone. A synchronous flush that fails leaves the
  queue as it was, in memory and, when the write succeeds, in the store.
\<close>

theorem failed_flush_requeues:
  assumes "enabled t"
  shows "(fst (queueEvent c ev t) = Inr True \<longrightarrow>
      queue (snd (queueEvent c ev t)) =
        (if 20 \<le> length (queue t) + 1 then [] else queue t @ [stamped c ev t]) \<and>
      inFlight (snd (queueEvent c ev t)) =
        (if 20 \<le> length (queue t) + 1 then inFlight t @ [queue t @ [stamped c ev t]]
         else inFlight t) \<and>
      persisted (snd (queueEvent c ev t)) =
        (if saveSucceeds c then Some (queue t @ [stamped c ev t]) else persisted t)) \<and>
    (fst (queueEvent c ev t) \<noteq> Inr True \<longrightarrow>
      (\<exists>e. fst (queueEvent c ev t) = Inl e) \<and>
      queue (snd (queueEvent c ev t)) = queue t \<and>
      inFlight (snd (queueEvent c ev t)) = inFlight t \<and>
      persisted (snd (queueEvent c ev t)) = persisted t) \<and>
    queue (snd (sendEventsSettle False saves batch t2)) = batch @ queue t2 \<and>
    persisted (snd (sendEventsSettle False saves batch t2)) =
      (if saves then Some (batch @ queue t2) else persisted t2) \<and>
    (20 \<le> length (queue t) + 1 \<and> fst (queueEvent c ev t) = Inr True \<and>
     length (accepted es (snd (queueEvent c ev t))) < 20 \<longrightarrow>
      inFlight (queueAll es (snd (queueEvent c ev t))) =
        inFlight t @ [queue t @ [stamped c ev t]] \<and>
      queue (snd (sendEventsSettle False saves (queue t @ [stamped c ev t])
        (queueAll es (snd (queueEvent c ev t))))) =
        (queue t @ [stamped c ev t]) @ stampedAll es (snd (queueEvent c ev t)) \<and>
      persisted (snd (sendEventsSettle False saves (queue t @ [stamped c ev t])
        (queueAll es (snd (queueEvent c ev t))))) =
        (if saves
         then Some ((queue t @ [stamped c ev t]) @ stampedAll es (snd (queueEvent c ev t)))
         else persisted (queueAll es (snd (queueEvent c ev t))))) \<and>
    (20 \<le> length (queue t) + 1 \<and> fst (queueEvent c ev t) = Inr True \<and>
     length (accepted es (snd (queueEvent c ev t))) = 20 \<longrightarrow>
      inFlight (queueAll es (snd (queueEvent c ev t))) =
        inFlight t @ [queue t @ [stamped c ev t], stampedAll es (snd (queueEvent c ev t))] \<and>
      queue (snd (sendEventsSettle False saves (queue t @ [stamped c ev t])
        (queueAll es (snd (queueEvent c ev t))))) = queue t @ [stamped c ev t]) \<and>
    map content (stampedAll es (snd (queueEvent c ev t))) =
      map content (accepted es (snd (queueEvent c ev t))) \<and>
    content (stamped c ev t) = content ev \<and>
    (queue t \<noteq> [] \<and> sendBeacon sc \<noteq> BeaconQueued \<and>
     (\<forall>status. xhrStatus sc = Some status \<longrightarrow> \<not> (200 \<le> status \<and> status < 300)) \<longrightarrow>
       queue (flushQueueSync sc t) = queue t \<and>
       (syncSaveSucceeds sc \<longrightarrow> persisted (flushQueueSync sc t) = Some (queue t)))"
proof -
  let ?t1 = "snd (queueEvent c ev t)"
  let ?b = "queue t @ [stamped c ev t]"
  have c1: "fst (queueEvent c ev t) = Inr True \<longrightarrow>
      queue ?t1 = (if 20 \<le> length (queue t) + 1 then [] else ?b) \<and>
      inFlight ?t1 = (if 20 \<le> length (queue t) + 1 then inFlight t @ [?b] else inFlight t) \<and>
      persisted ?t1 = (if saveSucceeds c then Some ?b else persisted t)"
    using queueEvent_returns [OF assms, of c ev] by blast
  have c2: "fst (queueEvent c ev t) \<noteq> Inr True \<longrightarrow>
      (\<exists>e. fst (queueEvent c ev t) = Inl e) \<and>
      queue ?t1 = queue t \<and> inFlight ?t1 = inFlight t \<and> persisted ?t1 = persisted t"
  proof
    assume n: "fst (queueEvent c ev t) \<noteq> Inr True"
    show "(\<exists>e. fst (queueEvent c ev t) = Inl e) \<and>
      queue ?t1 = queue t \<and> inFlight ?t1 = inFlight t \<and> persisted ?t1 = persisted t"
    proof (cases "fst (queueEvent c ev t)")
      case (Inl e)
      with queueEvent_throws [OF Inl] show ?thesis by simp
    next
      case (Inr b)
      with n queueEvent_never_false [OF assms, of c ev] show ?thesis by (cases b) simp_all
    qed
  qed
  have c3: "queue (snd (sendEventsSettle False saves batch t2)) = batch @ queue t2"
    and c4: "persisted (snd (sendEventsSettle False saves batch t2)) =
      (if saves then Some (batch @ queue t2) else persisted t2)"
    by (simp_all add: sendEventsSettle_failed)
  have c5: "20 \<le> length (queue t) + 1 \<and> fst (queueEvent c ev t) = Inr True \<and>
     length (accepted es ?t1) < 20 \<longrightarrow>
      inFlight (queueAll es ?t1) = inFlight t @ [?b] \<and>
      queue (snd (sendEventsSettle False saves ?b (queueAll es ?t1))) =
        ?b @ stampedAll es ?t1 \<and>
      persisted (snd (sendEventsSettle False saves ?b (queueAll es ?t1))) =
        (if saves then Some (?b @ stampedAll es ?t1) else persisted (queueAll es ?t1))"
  proof
    assume h: "20 \<le> length (queue t) + 1 \<and> fst (queueEvent c ev t) = Inr True \<and>
     length (accepted es ?t1) < 20"
    with queueEvent_returns [OF assms, of c ev]
    have q: "queue ?t1 = []" "inFlight ?t1 = inFlight t @ [?b]" "enabled ?t1" by simp_all
    have "length (queue ?t1) + length (stampedAll es ?t1) < 20"
      using q h by (simp add: length_stampedAll)
    from queueAll_below [OF q(3) this] q
    have "inFlight (queueAll es ?t1) = inFlight t @ [?b]"
      "queue (queueAll es ?t1) = stampedAll es ?t1" by simp_all
    then show "inFlight (queueAll es ?t1) = inFlight t @ [?b] \<and>
      queue (snd (sendEventsSettle False saves ?b (queueAll es ?t1))) =
        ?b @ stampedAll es ?t1 \<and>
      persisted (snd (sendEventsSettle False saves ?b (queueAll es ?t1))) =
        (if saves then Some (?b @ stampedAll es ?t1) else persisted (queueAll es ?t1))"
      by (simp add: sendEventsSettle_failed)
  qed
  have c6: "20 \<le> length (queue t) + 1 \<and> fst (queueEvent c ev t) = Inr True \<and>
     length (accepted es ?t1) = 20 \<longrightarrow>
      inFlight (queueAll es ?t1) = inFlight t @ [?b, stampedAll es ?t1] \<and>
      queue (snd (sendEventsSettle False saves ?b (queueAll es ?t1))) = ?b"
  proof
    assume h: "20 \<le> length (queue t) + 1 \<and> fst (queueEvent c ev t) = Inr True \<and>
     length (accepted es ?t1) = 20"
    with queueEvent_returns [OF assms, of c ev]
    have q: "queue ?t1 = []" "inFlight ?t1 = inFlight t @ [?b]" "enabled ?t1" by simp_all
    have "length (queue ?t1) + length (stampedAll es ?t1) = 20"
      using q h by (simp add: length_stampedAll)
    moreover have "stampedAll es ?t1 \<noteq> []"
      using h length_stampedAll [of es ?t1] by auto
    ultimately have "queue (queueAll es ?t1) = [] \<and>
        inFlight (queueAll es ?t1) = inFlight ?t1 @ [queue ?t1 @ stampedAll es ?t1]"
      using queueAll_reaches [OF q(3), of es] by blast
    with q show "inFlight (queueAll es ?t1) = inFlight t @ [?b, stampedAll es ?t1] \<and>
      queue (snd (sendEventsSettle False saves ?b (queueAll es ?t1))) = ?b"
      by (simp add: sendEventsSettle_failed)
  qed
  have c7: "map content (stampedAll es ?t1) = map content (accepted es ?t1)"
    by (rule content_stampedAll)
  have c8: "content (stamped c ev t) = content ev" by (rule content_stamped)
  have c9: "queue t \<noteq> [] \<and> sendBeacon sc \<noteq> BeaconQueued \<and>
     (\<forall>status. xhrStatus sc = Some status \<longrightarrow> \<not> (200 \<le> status \<and> status < 300)) \<longrightarrow>
       queue (flushQueueSync sc t) = queue t \<and>
       (syncSaveSucceeds sc \<longrightarrow> persisted (flushQueueSync sc t) = Some (queue t))"
    using flushQueueSync_failed [OF assms, of sc] by blast
  from c1 c2 c3 c4 c5 c6 c7 c8 c9 show ?thesis by (intro conjI)
qed

theorem failed_flush_requeues_witness:
  "enabled (exampleTracker (replicate 19 (exampleEvent 10))) \<and>
   20 \<le> length (queue (exampleTracker (replicate 19 (exampleEvent 10)))) + 1 \<and>
   fst (queueEvent (exampleCall 2 True) (exampleEvent 2)
     (exampleTracker (replicate 19 (exampleEvent 10)))) = Inr True \<and>
   queue (snd (queueEvent (exampleCall 2 True) (exampleEvent 2)
     (exampleTracker (replicate 19 (exampleEvent 10))))) = [] \<and>
   inFlight (snd (queueEvent (exampleCall 2 True) (exampleEvent 2)
     (exampleTracker (replicate 19 (exampleEvent 10))))) =
     [replicate 19 (exampleEvent 10) @ [exampleEvent 2]] \<and>
   accepted [((exampleCall 14400001 True)\<lparr>sessionIdFault :=
         Some (JsError ''QuotaExceededError'' ''full'')\<rparr>, exampleEvent 4),
      (exampleCall 3 True, exampleEvent 3)]
     (snd (queueEvent (exampleCall 2 True) (exampleEvent 2)
       (exampleTracker (replicate 19 (exampleEvent 10))))) = [exampleEvent 3] \<and>
   queue (snd (sendEventsSettle False True (replicate 19 (exampleEvent 10) @ [exampleEvent 2])
      (queueAll [((exampleCall 14400001 True)\<lparr>sessionIdFault :=
         Some (JsError ''QuotaExceededError'' ''full'')\<rparr>, exampleEvent 4),
      (exampleCall 3 True, exampleEvent 3)]
        (snd (queueEvent (exampleCall 2 True) (exampleEvent 2)
          (exampleTracker (replicate 19 (exampleEvent 10)))))))) =
     replicate 19 (exampleEvent 10) @ [exampleEvent 2, exampleEvent 3] \<and>
   persisted (snd (sendEventsSettle False True
      (replicate 19 (exampleEvent 10) @ [exampleEvent 2])
      (queueAll [((exampleCall 14400001 True)\<lparr>sessionIdFault :=
         Some (JsError ''QuotaExceededError'' ''full'')\<rparr>, exampleEvent 4),
      (exampleCall 3 True, exampleEvent 3)]
        (snd (queueEvent (exampleCall 2 True) (exampleEvent 2)
          (exampleTracker (replicate 19 (exampleEvent 10)))))))) =
     Some (replicate 19 (exampleEvent 10) @ [exampleEvent 2, exampleEvent 3]) \<and>
   length (accepted (replicate 20 (exampleCall 3 True, exampleEvent 3))
     (snd (queueEvent (exampleCall 2 True) (exampleEvent 2)
       (exampleTracker (replicate 19 (exampleEvent 10)))))) = 20 \<and>
   queue (snd (sendEventsSettle False True (replicate 19 (exampleEvent 10) @ [exampleEvent 2])
      (queueAll (replicate 20 (exampleCall 3 True, exampleEvent 3))
        (snd (queueEvent (exampleCall 2 True) (exampleEvent 2)
          (exampleTracker (replicate 19 (exampleEvent 10)))))))) =
     replicate 19 (exampleEvent 10) @ [exampleEvent 2] \<and>
   inFlight (queueAll (replicate 20 (exampleCall 3 True, exampleEvent 3))
        (snd (queueEvent (exampleCall 2 True) (exampleEvent 2)
          (exampleTracker (replicate 19 (exampleEvent 10)))))) =
     [replicate 19 (exampleEvent 10) @ [exampleEvent 2], replicate 20 (exampleEvent 3)] \<and>
   enabled ((exampleTracker [exampleEvent 10])\<lparr>storedUserId := None\<rparr>) \<and>
   fst (queueEvent
       ((exampleCall 2 True)\<lparr>userIdFault := Some (JsError ''QuotaExceededError'' ''full'')\<rparr>)
       (exampleEvent 2) ((exampleTracker [exampleEvent 10])\<lparr>storedUserId := None\<rparr>)) =
     Inl (JsError ''QuotaExceededError'' ''full'') \<and>
   queue (snd (queueEvent
       ((exampleCall 2 True)\<lparr>userIdFault := Some (JsError ''QuotaExceededError'' ''full'')\<rparr>)
       (exampleEvent 2) ((exampleTracker [exampleEvent 10])\<lparr>storedUserId := None\<rparr>))) =
     [exampleEvent 10] \<and>
   sendBeacon \<lparr>sendBeacon = NoBeacon, xhrStatus = Some 500, syncSaveSucceeds = True\<rparr> \<noteq>
     BeaconQueued \<and>
   persisted (flushQueueSync
       \<lparr>sendBeacon = NoBeacon, xhrStatus = Some 500, syncSaveSucceeds = True\<rparr>
       (exampleTracker (replicate 19 (exampleEvent 10)))) =
     Some (replicate 19 (exampleEvent 10))"
proof -
  let ?t = "exampleTracker (replicate 19 (exampleEvent 10))"
  let ?c = "exampleCall 2 True"
  let ?t1 = "snd (queueEvent ?c (exampleEvent 2) ?t)"
  let ?es = "[((exampleCall 14400001 True)\<lparr>sessionIdFault :=
         Some (JsError ''QuotaExceededError'' ''full'')\<rparr>, exampleEvent 4),
      (exampleCall 3 True, exampleEvent 3)]"
  let ?es' = "replicate 20 (exampleCall 3 True, exampleEvent 3)"
  let ?sc = "\<lparr>sendBeacon = NoBeacon, xhrStatus = Some 500, syncSaveSucceeds = True\<rparr>"
  let ?t' = "(exampleTracker [exampleEvent 10])\<lparr>storedUserId := None\<rparr>"
  let ?c' = "(exampleCall 2 True)\<lparr>userIdFault := Some (JsError ''QuotaExceededError'' ''full'')\<rparr>"
  have a: "enabled ?t" by (simp add: exampleTracker_def)
  have b: "20 \<le> length (queue ?t) + 1" by (simp add: exampleTracker_def)
  have q: "queue ?t = replicate 19 (exampleEvent 10)" "inFlight ?t = []"
    by (simp_all add: exampleTracker_def)
  have r: "queueEvent ?c (exampleEvent 2) ?t =
      (Inr True, (exampleTracker (replicate 19 (exampleEvent 10) @ [exampleEvent 2]))
         \<lparr>queue := [], inFlight := [replicate 19 (exampleEvent 10) @ [exampleEvent 2]]\<rparr>)"
    by (simp add: queueEvent_def getSessionId_def getUserId_def saveQueue_def flushQueue_def
        sendEventsStart_def exampleTracker_def exampleCall_def exampleEvent_def Let_def)
  have s: "stamped ?c (exampleEvent 2) ?t = exampleEvent 2"
    by (simp add: stamped_def getSessionId_def getUserId_def exampleTracker_def
        exampleCall_def exampleEvent_def Let_def)
  have one: "queueEvent (exampleCall 3 True) (exampleEvent 3) u =
      (Inr True, if 20 \<le> length (queue u) + 1
         then u\<lparr>queue := [], persisted := Some (queue u @ [exampleEvent 3]),
                inFlight := inFlight u @ [queue u @ [exampleEvent 3]]\<rparr>
         else u\<lparr>queue := queue u @ [exampleEvent 3],
                persisted := Some (queue u @ [exampleEvent 3])\<rparr>)"
    and st: "stamped (exampleCall 3 True) (exampleEvent 3) u = exampleEvent 3"
    if "enabled u" "storedSessionId u = Some ''s1''" "storedSessionExpiry u = Some 14400000"
      "storedUserId u = Some ''u1''" for u
    using that
    by (simp_all add: queueEvent_def stamped_def getSessionId_def getUserId_def saveQueue_def
        flushQueue_def sendEventsStart_def exampleCall_def exampleEvent_def Let_def)
  have ids: "enabled u' \<and> storedSessionId u' = Some ''s1'' \<and>
      storedSessionExpiry u' = Some 14400000 \<and> storedUserId u' = Some ''u1''"
    if "enabled u" "storedSessionId u = Some ''s1''" "storedSessionExpiry u = Some 14400000"
      "storedUserId u = Some ''u1''"
      "u' = snd (queueEvent (exampleCall 3 True) (exampleEvent 3) u)" for u u'
    using that by (simp add: one)
  have all: "accepted (replicate n (exampleCall 3 True, exampleEvent 3)) u =
        replicate n (exampleEvent 3) \<and>
      stampedAll (replicate n (exampleCall 3 True, exampleEvent 3)) u =
        replicate n (exampleEvent 3)"
    if "enabled u" "storedSessionId u = Some ''s1''" "storedSessionExpiry u = Some 14400000"
      "storedUserId u = Some ''u1''" for u n
    using that
  proof (induction n arbitrary: u)
    case 0
    then show ?case by simp
  next
    case (Suc n)
    from ids [OF Suc.prems refl]
    have "accepted (replicate n (exampleCall 3 True, exampleEvent 3))
        (snd (queueEvent (exampleCall 3 True) (exampleEvent 3) u)) =
        replicate n (exampleEvent 3) \<and>
      stampedAll (replicate n (exampleCall 3 True, exampleEvent 3))
        (snd (queueEvent (exampleCall 3 True) (exampleEvent 3) u)) =
        replicate n (exampleEvent 3)"
      by (intro Suc.IH) simp_all
    then show ?case using one [OF Suc.prems] st [OF Suc.prems] by simp
  qed
  have t1: "enabled ?t1" "storedSessionId ?t1 = Some ''s1''"
    "storedSessionExpiry ?t1 = Some 14400000" "storedUserId ?t1 = Some ''u1''"
    unfolding r by (simp_all add: exampleTracker_def)
  have thr: "queueEvent ((exampleCall 14400001 True)\<lparr>sessionIdFault :=
         Some (JsError ''QuotaExceededError'' ''full'')\<rparr>) (exampleEvent 4) ?t1 =
      (Inl (JsError ''QuotaExceededError'' ''full''), ?t1)"
    unfolding r
    by (simp add: queueEvent_def getSessionId_def exampleTracker_def exampleCall_def Let_def)
  have d: "accepted ?es ?t1 = [exampleEvent 3]" "stampedAll ?es ?t1 = [exampleEvent 3]"
    using one [OF t1] st [OF t1] by (simp_all add: thr)
  have e: "accepted ?es' ?t1 = replicate 20 (exampleEvent 3)"
    "stampedAll ?es' ?t1 = replicate 20 (exampleEvent 3)"
    using all [OF t1, of 20] by simp_all
  have f: "enabled ?t'" by (simp add: exampleTracker_def)
  have g: "queueEvent ?c' (exampleEvent 2) ?t' =
      (Inl (JsError ''QuotaExceededError'' ''full''), ?t')"
    by (simp add: queueEvent_def getSessionId_def getUserId_def exampleTracker_def
        exampleCall_def exampleEvent_def Let_def)
  have h: "sendBeacon ?sc \<noteq> BeaconQueued"
    "\<forall>status. xhrStatus ?sc = Some status \<longrightarrow> \<not> (200 \<le> status \<and> status < 300)"
    "syncSaveSucceeds ?sc" "queue ?t \<noteq> []"
    by (simp_all add: exampleTracker_def)
  note w1 = failed_flush_requeues [OF a, of ?c "exampleEvent 2" True "[]" ?t ?es ?sc]
  note w2 = failed_flush_requeues [OF a, of ?c "exampleEvent 2" True "[]" ?t ?es' ?sc]
  note w3 = failed_flush_requeues [OF f, of ?c' "exampleEvent 2" True "[]" ?t ?es ?sc]
  have r1: "fst (queueEvent ?c (exampleEvent 2) ?t) = Inr True" unfolding r by simp
  from w1 r1 b have p1: "queue ?t1 = []"
    "inFlight ?t1 = [replicate 19 (exampleEvent 10) @ [exampleEvent 2]]"
    by (simp_all add: q s)
  from w1 r1 b d have p2:
    "queue (snd (sendEventsSettle False True (replicate 19 (exampleEvent 10) @ [exampleEvent 2])
        (queueAll ?es ?t1))) = replicate 19 (exampleEvent 10) @ [exampleEvent 2, exampleEvent 3]"
    "persisted (snd (sendEventsSettle False True
        (replicate 19 (exampleEvent 10) @ [exampleEvent 2]) (queueAll ?es ?t1))) =
      Some (replicate 19 (exampleEvent 10) @ [exampleEvent 2, exampleEvent 3])"
    by (simp_all add: q s)
  from w2 r1 b e have p3:
    "queue (snd (sendEventsSettle False True (replicate 19 (exampleEvent 10) @ [exampleEvent 2])
        (queueAll ?es' ?t1))) = replicate 19 (exampleEvent 10) @ [exampleEvent 2]"
    "inFlight (queueAll ?es' ?t1) =
      [replicate 19 (exampleEvent 10) @ [exampleEvent 2], replicate 20 (exampleEvent 3)]"
    by (simp_all add: q s)
  from w3 g have p4: "queue (snd (queueEvent ?c' (exampleEvent 2) ?t')) = [exampleEvent 10]"
    by (simp add: exampleTracker_def)
  from w1 h have p5: "persisted (flushQueueSync ?sc ?t) = Some (replicate 19 (exampleEvent 10))"
    by (simp add: q)
  from a b r1 p1 d(1) p2 e(1) p3 f g p4 h(1) p5 show ?thesis by simp
qed

text \<open>
  Claim C2 as it is stated fails when the write of the queue throws, which
  \<open>saveQueue\<close> catches: a batch of one event is in flight, a second event is queued
  and saved, the send fails and the write after it throws. The persisted queue holds
  the second event only.
\<close>

theorem failed_flush_lost_when_save_throws:
  "fst (queueEvent (exampleCall 2 True) (exampleEvent 2)
        (flushQueue (exampleTracker [exampleEvent 1]))) = Inr True \<and>
   persisted (snd (sendEventsSettle False False [exampleEvent 1]
     (snd (queueEvent (exampleCall 2 True) (exampleEvent 2)
        (flushQueue (exampleTracker [exampleEvent 1])))))) = Some [exampleEvent 2] \<and>
   exampleEvent 1 \<notin> set (the (persisted (snd (sendEventsSettle False False [exampleEvent 1]
     (snd (queueEvent (exampleCall 2 True) (exampleEvent 2)
        (flushQueue (exampleTracker [exampleEvent 1])))))))) \<and>
   inFlight (flushQueue (exampleTracker [exampleEvent 1])) = [ [exampleEvent 1] ]"
  by (simp add: sendEventsSettle_def saveQueue_def queueEvent_def flushQueue_def
      sendEventsStart_def exampleTracker_def exampleCall_def exampleEvent_def
      getSessionId_def getUserId_def Let_def)

end
